theory Spec2Isabelle
  imports Complex_Main
begin

section \<open>JavaScript numbers\<close>

text \<open>
  Both source files compute on JavaScript numbers. A number is modelled as a real or one
  of the three special values the code itself writes or tests for (\<open>Infinity\<close>,
  \<open>-Infinity\<close>, \<open>NaN\<close>). Arithmetic on finite values is exact (no rounding, no
  overflow) and the two zeros are identified; the special values follow IEEE 754. What
  depends on a double being rounded or overflowing, the termination of a loop above all,
  is therefore outside this model.
\<close>

datatype number = Fin real | PInf | NInf | NaN

instantiation number :: "{zero, one, plus, uminus, minus, times, inverse, ord}"
begin

definition zero_number :: number where
  "zero_number = Fin 0"

definition one_number :: number where
  "one_number = Fin 1"

fun plus_number :: "number \<Rightarrow> number \<Rightarrow> number" where
  "plus_number (Fin a) (Fin b) = Fin (a + b)"
| "plus_number NaN _ = NaN"
| "plus_number _ NaN = NaN"
| "plus_number PInf NInf = NaN"
| "plus_number NInf PInf = NaN"
| "plus_number PInf _ = PInf"
| "plus_number _ PInf = PInf"
| "plus_number NInf _ = NInf"
| "plus_number _ NInf = NInf"

fun uminus_number :: "number \<Rightarrow> number" where
  "uminus_number (Fin a) = Fin (- a)"
| "uminus_number PInf = NInf"
| "uminus_number NInf = PInf"
| "uminus_number NaN = NaN"

definition minus_number :: "number \<Rightarrow> number \<Rightarrow> number" where
  "minus_number a b = a + (- b)"

fun times_number :: "number \<Rightarrow> number \<Rightarrow> number" where
  "times_number (Fin a) (Fin b) = Fin (a * b)"
| "times_number NaN _ = NaN"
| "times_number _ NaN = NaN"
| "times_number PInf (Fin b) = (if b = 0 then NaN else if 0 < b then PInf else NInf)"
| "times_number NInf (Fin b) = (if b = 0 then NaN else if 0 < b then NInf else PInf)"
| "times_number (Fin a) PInf = (if a = 0 then NaN else if 0 < a then PInf else NInf)"
| "times_number (Fin a) NInf = (if a = 0 then NaN else if 0 < a then NInf else PInf)"
| "times_number PInf PInf = PInf"
| "times_number NInf NInf = PInf"
| "times_number PInf NInf = NInf"
| "times_number NInf PInf = NInf"

fun divide_number :: "number \<Rightarrow> number \<Rightarrow> number" where
  "divide_number (Fin a) (Fin b) =
     (if b = 0 then (if a = 0 then NaN else if 0 < a then PInf else NInf) else Fin (a / b))"
| "divide_number NaN _ = NaN"
| "divide_number _ NaN = NaN"
| "divide_number (Fin a) _ = Fin 0"
| "divide_number PInf (Fin b) = (if 0 \<le> b then PInf else NInf)"
| "divide_number NInf (Fin b) = (if 0 \<le> b then NInf else PInf)"
| "divide_number _ _ = NaN"

definition inverse_number :: "number \<Rightarrow> number" where
  "inverse_number a = divide (Fin 1) a"

fun less_number :: "number \<Rightarrow> number \<Rightarrow> bool" where
  "less_number (Fin a) (Fin b) = (a < b)"
| "less_number NaN _ = False"
| "less_number _ NaN = False"
| "less_number _ NInf = False"
| "less_number PInf _ = False"
| "less_number _ _ = True"

definition less_eq_number :: "number \<Rightarrow> number \<Rightarrow> bool" where
  "less_eq_number a b = (a < b \<or> (a = b \<and> a \<noteq> NaN))"

instance ..

end

text \<open>\<open>a === b\<close> and \<open>a == b\<close> on numbers: \<open>NaN\<close> equals nothing, itself included.\<close>

definition num_eq :: "number \<Rightarrow> number \<Rightarrow> bool" where
  "num_eq a b = (a \<noteq> NaN \<and> a = b)"

text \<open>\<open>Number.isNaN\<close>, \<open>Math.sqrt\<close> and \<open>Math.min\<close>.\<close>

definition isNaN :: "number \<Rightarrow> bool" where
  "isNaN a = (a = NaN)"

fun Math_sqrt :: "number \<Rightarrow> number" where
  "Math_sqrt (Fin a) = (if a < 0 then NaN else Fin (sqrt a))"
| "Math_sqrt PInf = PInf"
| "Math_sqrt NInf = NaN"
| "Math_sqrt NaN = NaN"

definition Math_min :: "number \<Rightarrow> number \<Rightarrow> number" where
  "Math_min a b = (if a = NaN \<or> b = NaN then NaN else if b < a then b else a)"

section \<open>Data model\<close>

text \<open>
  A \<open>PointTuple\<close> \<open>[x, y]\<close> and a \<open>Point\<close> \<open>{x, y}\<close> are both a pair of numbers; a ring is
  a list of points and a polygon a list of rings.
\<close>

type_synonym Point = "number \<times> number"
type_synonym Ring = "Point list"
type_synonym Polygon = "Ring list"

section \<open>pl.ts: geometry primitives\<close>

definition getSegDistSq :: "Point \<Rightarrow> Point \<Rightarrow> Point \<Rightarrow> number" where
  "getSegDistSq p a b =
     (let x = fst a; y = snd a;
          dx = fst b - x; dy = snd b - y;
          (x, y) =
            (if dx \<noteq> Fin 0 \<or> dy \<noteq> Fin 0 then
               (let t = ((fst p - x) * dx + (snd p - y) * dy) / (dx * dx + dy * dy)
                in if Fin 1 < t then (fst b, snd b)
                   else if Fin 0 < t then (x + dx * t, y + dy * t)
                   else (x, y))
             else (x, y));
          dx = fst p - x; dy = snd p - y
      in dx * dx + dy * dy)"

text \<open>
  The pairs \<open>(ring[i], ring[j])\<close> that the loop
  \<^verbatim>\<open>for (let i = 0, len = ring.length, j = len - 1; i < len; j = i++)\<close> visits, in order:
  the first vertex with the last one, then every vertex with its predecessor.
\<close>

definition ring_edges :: "'a list \<Rightarrow> ('a \<times> 'a) list" where
  "ring_edges ring = (case ring of [] \<Rightarrow> [] | _ \<Rightarrow> zip ring (last ring # butlast ring))"

text \<open>The body of the inner loop of \<open>pointToPolygonDist\<close>, on the state \<open>(inside, minDistSq)\<close>.\<close>

definition edge_step :: "Point \<Rightarrow> bool \<times> number \<Rightarrow> Point \<times> Point \<Rightarrow> bool \<times> number" where
  "edge_step point acc e =
     (let (inside, minDistSq) = acc; ((ax, ay), (bx, by)) = e;
          inside =
            (if (snd point < ay) \<noteq> (snd point < by)
                \<and> fst point < (bx - ax) * (snd point - ay) / (by - ay) + ax
             then \<not> inside else inside);
          minDistSq = Math_min minDistSq (getSegDistSq point (ax, ay) (bx, by))
      in (inside, minDistSq))"

definition pointToPolygonDist :: "Point \<Rightarrow> Polygon \<Rightarrow> number" where
  "pointToPolygonDist point polygon =
     (let (inside, minDistSq) =
            foldl (\<lambda>acc ring. foldl (edge_step point) acc (ring_edges ring)) (False, PInf) polygon
      in (if inside then Fin 1 else Fin (- 1)) * Math_sqrt minDistSq)"

section \<open>pl.ts: cells\<close>

datatype error = TypeError | Error string

record Cell =
  cell_c :: Point
  cell_h :: number
  cell_d :: number
  cell_max :: number

text \<open>
  The constructor of class \<open>Cell\<close>. A \<open>throw\<close> is the value \<open>Inl\<close>. \<open>Math.max\<close> of one
  argument is that argument.
\<close>

definition new_Cell :: "Point \<Rightarrow> number \<Rightarrow> Polygon \<Rightarrow> error + Cell" where
  "new_Cell c h polygon =
     (let err = [];
          err = (if isNaN h then err @ ''not h '' else err);
          err = (if isNaN (fst c) then err @ ''not c.x '' else err);
          err = (if isNaN (snd c) then err @ ''not c.y '' else err);
          err = (if length polygon = 0 then err @ ''not polygon '' else err)
      in if err \<noteq> [] then Inl (Error err)
         else (let d = pointToPolygonDist c polygon
               in Inr \<lparr>cell_c = c, cell_h = h, cell_d = d,
                        cell_max = d + h * Math_sqrt (Fin 2)\<rparr>))"

text \<open>
  \<open>getCentroidCell(polygon, points)\<close>. Reading \<open>polygon[0]\<close> of an empty polygon gives
  \<open>undefined\<close>, whose \<open>length\<close> is a \<open>TypeError\<close>; so is \<open>points[0][0]\<close> of an empty table.
\<close>

definition centroid_step :: "number \<times> number \<times> number \<Rightarrow> Point \<times> Point \<Rightarrow> number \<times> number \<times> number" where
  "centroid_step acc e =
     (let (cx, cy, area) = acc; ((ax, ay), (bx, by)) = e;
          f = ax * by - bx * ay
      in (cx + (ax + bx) * f, cy + (ay + by) * f, area + f * Fin 3))"

definition getCentroidCell :: "Polygon \<Rightarrow> Point list \<Rightarrow> error + Cell" where
  "getCentroidCell polygon points =
     (case polygon of
        [] \<Rightarrow> Inl TypeError
      | ring # _ \<Rightarrow>
          (let (cx, cy, area) = foldl centroid_step (Fin 0, Fin 0, Fin 1) (ring_edges ring)
           in if num_eq area (Fin 0) then
                (case points of
                   [] \<Rightarrow> Inl TypeError
                 | p # _ \<Rightarrow> new_Cell (fst p, snd p) (Fin 0) polygon)
              else new_Cell (cx / area, cy / area) (Fin 0) polygon))"

text \<open>\<open>getGeometry\<close>: the reduction over the vertices, on the accumulator \<open>(min, max)\<close>.\<close>

definition geometry_step :: "Point \<times> Point \<Rightarrow> Point \<Rightarrow> Point \<times> Point" where
  "geometry_step acc p =
     (let (mn, mx) = acc; (x, y) = p;
          mnx = (if x < fst mn then x else fst mn);
          mny = (if y < snd mn then y else snd mn);
          mxx = (if fst mx < x then x else fst mx);
          mxy = (if snd mx < y then y else snd mx)
      in ((mnx, mny), (mxx, mxy)))"

definition getGeometry :: "Ring \<Rightarrow> Point \<times> Point" where
  "getGeometry array = foldl geometry_step ((PInf, PInf), (Fin 0, Fin 0)) array"

section \<open>pl.ts: the search driver\<close>

definition compareMax :: "Cell \<Rightarrow> Cell \<Rightarrow> bool" where
  "compareMax a b = (cell_max a < cell_max b)"

text \<open>
  Modelled from the spec: the class \<open>PriorityQueue\<close> of \<open>./priority-queue.js\<close>, which
  \<open>pl.ts\<close> imports and which is not among the sources. The spec describes it as a priority
  collection with max-heap semantics: \<open>pop\<close> removes and returns the element with the
  greatest priority under the comparator it was built with. The pending cells are kept as
  a list in insertion order; \<open>pq_top\<close> scans it, replacing the candidate whenever the
  comparator ranks it below the next element.
\<close>

definition pq_push :: "'a list \<Rightarrow> 'a \<Rightarrow> 'a list" where
  "pq_push q c = q @ [c]"

definition pq_top :: "('a \<Rightarrow> 'a \<Rightarrow> bool) \<Rightarrow> 'a list \<Rightarrow> 'a" where
  "pq_top compare q = foldl (\<lambda>best b. if compare best b then b else best) (hd q) (tl q)"

definition pq_pop :: "('a \<Rightarrow> 'a \<Rightarrow> bool) \<Rightarrow> 'a list \<Rightarrow> 'a \<times> 'a list" where
  "pq_pop compare q = (let c = pq_top compare q in (c, remove1 c q))"

text \<open>
  The two seeding loops of \<open>polylabel\<close>. A loop that does not end has no value (\<open>None\<close>);
  a constructor that throws ends it with \<open>Some (Inl _)\<close>.
\<close>

partial_function (option) grid_y ::
  "Polygon \<Rightarrow> number \<Rightarrow> number \<Rightarrow> number \<Rightarrow> number \<Rightarrow> number \<Rightarrow> Cell list
    \<Rightarrow> (error + Cell list) option" where
  "grid_y polygon h cellSize max_y x y cellQueue =
     (if y < max_y then
        (case new_Cell (x + h, y + h) h polygon of
           Inl e \<Rightarrow> Some (Inl e)
         | Inr c \<Rightarrow> grid_y polygon h cellSize max_y x (y + cellSize) (pq_push cellQueue c))
      else Some (Inr cellQueue))"

partial_function (option) grid_x ::
  "Polygon \<Rightarrow> number \<Rightarrow> number \<Rightarrow> Point \<times> Point \<Rightarrow> number \<Rightarrow> Cell list
    \<Rightarrow> (error + Cell list) option" where
  "grid_x polygon h cellSize envelope x cellQueue =
     (if x < fst (snd envelope) then
        (case grid_y polygon h cellSize (snd (snd envelope)) x (snd (fst envelope)) cellQueue of
           None \<Rightarrow> None
         | Some (Inl e) \<Rightarrow> Some (Inl e)
         | Some (Inr cellQueue) \<Rightarrow>
             grid_x polygon h cellSize envelope (x + cellSize) cellQueue)
      else Some (Inr cellQueue))"

text \<open>The \<open>while (!cellQueue.empty())\<close> loop, on the state \<open>(cellQueue, bestCell)\<close>.\<close>

partial_function (option) search ::
  "Polygon \<Rightarrow> number \<Rightarrow> Cell list \<Rightarrow> Cell \<Rightarrow> (error + Cell) option" where
  "search polygon precision cellQueue bestCell =
     (if cellQueue = [] then Some (Inr bestCell)
      else
        (let (cell, cellQueue) = pq_pop compareMax cellQueue;
             bestCell = (if cell_d bestCell < cell_d cell then cell else bestCell)
         in if cell_max cell - cell_d bestCell \<le> precision then
              search polygon precision cellQueue bestCell
            else
              (let h = cell_h cell / Fin 2; cx = fst (cell_c cell); cy = snd (cell_c cell)
               in case new_Cell (cx + h, cy - h) h polygon of
                    Inl e \<Rightarrow> Some (Inl e)
                  | Inr c1 \<Rightarrow>
               (case new_Cell (cx - h, cy - h) h polygon of
                    Inl e \<Rightarrow> Some (Inl e)
                  | Inr c2 \<Rightarrow>
               (case new_Cell (cx - h, cy + h) h polygon of
                    Inl e \<Rightarrow> Some (Inl e)
                  | Inr c3 \<Rightarrow>
               (case new_Cell (cx + h, cy + h) h polygon of
                    Inl e \<Rightarrow> Some (Inl e)
                  | Inr c4 \<Rightarrow>
                      search polygon precision
                        (pq_push (pq_push (pq_push (pq_push cellQueue c1) c2) c3) c4)
                        bestCell))))))"

text \<open>
  \<open>polylabel(polygon, precision)\<close>. The module-level table \<open>points\<close> that the function
  hands to \<open>getCentroidCell\<close> is an explicit first argument; the \<open>debug\<close> flag only prints
  and is left out. \<open>getGeometry(polygon[0])\<close> of an empty polygon calls \<open>reduce\<close> on
  \<open>undefined\<close>, a \<open>TypeError\<close>.
\<close>

definition polylabel :: "Point list \<Rightarrow> Polygon \<Rightarrow> number \<Rightarrow> (error + Point) option" where
  "polylabel points polygon precision =
     (case polygon of
        [] \<Rightarrow> Some (Inl TypeError)
      | ring0 # _ \<Rightarrow>
          (let envelope = getGeometry ring0;
               size_x = fst (snd envelope) - fst (fst envelope);
               size_y = snd (snd envelope) - snd (fst envelope);
               cellSize = Math_min size_x size_y;
               h = cellSize / Fin 2
           in if num_eq cellSize (Fin 0) then Some (Inr (fst envelope))
              else
                (case grid_x polygon h cellSize envelope (fst (fst envelope)) [] of
                   None \<Rightarrow> None
                 | Some (Inl e) \<Rightarrow> Some (Inl e)
                 | Some (Inr cellQueue) \<Rightarrow>
                     (case getCentroidCell polygon points of
                        Inl e \<Rightarrow> Some (Inl e)
                      | Inr bestCell \<Rightarrow>
                          (case new_Cell (fst (fst envelope) + size_x / Fin 2,
                                          snd (fst envelope) + size_y / Fin 2) (Fin 0) polygon of
                             Inl e \<Rightarrow> Some (Inl e)
                           | Inr bboxCell \<Rightarrow>
                               (let bestCell =
                                      (if cell_d bestCell < cell_d bboxCell then bboxCell
                                       else bestCell)
                                in map_option (map_sum id cell_c)
                                     (search polygon precision cellQueue bestCell)))))))"

text \<open>The first row of the table \<open>points\<close>, the only one the driver can read.\<close>

definition points_0 :: Point where
  "points_0 = (Fin 261.2, Fin 150.1)"

section \<open>polylabel.js: geometry primitives\<close>

definition getSegDistSql :: "number \<Rightarrow> number \<Rightarrow> Point \<Rightarrow> Point \<Rightarrow> number" where
  "getSegDistSql px py a b =
     (let x = fst a; y = snd a;
          dx = fst b - x; dy = snd b - y;
          (x, y) =
            (if dx \<noteq> Fin 0 \<and> dy \<noteq> Fin 0 then
               (let t = ((px - x) * dx + (py - y) * dy) / (dx * dx + dy * dy)
                in if dx \<noteq> Fin 0 \<and> dy \<noteq> Fin 0 then
                     (let x = fst b; y = snd b
                      in if Fin 1 < t then (fst b, snd b)
                         else if Fin 0 < t then (x + dx * t, y + dy * t)
                         else (x, y))
                   else (x, y))
             else (x, y));
          dx = px - x; dy = py - y
      in dx * dx + dy * dy)"

text \<open>
  Values that are not numbers. \<open>ToNumber\<close> is the conversion that arithmetic and the
  relational operators apply to their operands.
\<close>

datatype jsval = Num number | Bool bool | Undefined

fun ToNumber :: "jsval \<Rightarrow> number" where
  "ToNumber (Num n) = n"
| "ToNumber (Bool b) = (if b then Fin 1 else Fin 0)"
| "ToNumber Undefined = NaN"

definition js_lt :: "jsval \<Rightarrow> jsval \<Rightarrow> bool" where
  "js_lt a b = (ToNumber a < ToNumber b)"

text \<open>
  \<open>xs[n]\<close> for a number \<open>n\<close>: the element when \<open>n\<close> is an index of the array, \<open>undefined\<close>
  (\<open>None\<close>) otherwise. An array has no property \<open>lenght\<close>, and a number has no indexed
  properties: both reads give \<open>undefined\<close>.
\<close>

definition js_index :: "'a list \<Rightarrow> number \<Rightarrow> 'a option" where
  "js_index xs n =
     (case n of
        Fin r \<Rightarrow>
          (if r = of_int \<lfloor>r\<rfloor> \<and> 0 \<le> r \<and> nat \<lfloor>r\<rfloor> < length xs then Some (xs ! nat \<lfloor>r\<rfloor>)
           else None)
      | _ \<Rightarrow> None)"

definition lenght :: "'a list \<Rightarrow> jsval" where
  "lenght xs = Undefined"

definition number_index :: "number \<Rightarrow> nat \<Rightarrow> jsval" where
  "number_index p i = Undefined"

text \<open>A \<open>for ... of\<close> loop whose body may throw.\<close>

fun fold_err :: "('s \<Rightarrow> 'a \<Rightarrow> error + 's) \<Rightarrow> 's \<Rightarrow> 'a list \<Rightarrow> error + 's" where
  "fold_err f s [] = Inr s"
| "fold_err f s (x # xs) = (case f s x of Inl e \<Rightarrow> Inl e | Inr s' \<Rightarrow> fold_err f s' xs)"

text \<open>
  The body of the inner loop of \<open>pointToPolygonDistance\<close>. Reading \<open>b[1]\<close> of an
  undefined \<open>b\<close> is a \<open>TypeError\<close>; \<open>!==\<close> evaluates both of its operands.
\<close>

definition js_edge_step ::
  "number \<Rightarrow> number \<Rightarrow> Point option \<Rightarrow> bool \<times> number \<Rightarrow> Point \<Rightarrow> error + bool \<times> number" where
  "js_edge_step x y b acc a =
     (case b of
        None \<Rightarrow> Inl TypeError
      | Some b \<Rightarrow>
          (let (inside, minDistSq) = acc
           in if (y < snd a) \<noteq> (y < snd b)
                 \<and> x < (fst b - fst a) * (y - snd a) / (snd b - snd a) + fst a
              then Inr (\<not> inside, Math_min minDistSq (getSegDistSql x y a b))
              else Inr (inside, minDistSq)))"

text \<open>
  \<open>pointToPolygonDistance\<close>: the \<open>return\<close> statements are inside the loop over the
  rings, so the function returns after the first ring; with no ring it returns
  \<open>undefined\<close>.
\<close>

definition pointToPolygonDistance :: "number \<Rightarrow> number \<Rightarrow> Polygon \<Rightarrow> error + jsval" where
  "pointToPolygonDistance x y polygon =
     (case polygon of
        [] \<Rightarrow> Inr Undefined
      | ring # _ \<Rightarrow>
          (let b = js_index ring (ToNumber (lenght ring) - Fin 1)
           in case fold_err (js_edge_step x y b) (False, PInf) ring of
                Inl e \<Rightarrow> Inl e
              | Inr (inside, minDistSq) \<Rightarrow>
                  (let result = Math_sqrt minDistSq
                   in if \<not> inside then Inr (Num (- result)) else Inr (Num result))))"

section \<open>polylabel.js: cells and the driver\<close>

record Cell_js =
  js_h :: number
  js_y :: number
  js_x :: number
  js_d :: jsval
  js_max :: number

definition new_Cell_js :: "number \<Rightarrow> number \<Rightarrow> number \<Rightarrow> Polygon \<Rightarrow> error + Cell_js" where
  "new_Cell_js x y h polygon =
     (case pointToPolygonDistance x y polygon of
        Inl e \<Rightarrow> Inl e
      | Inr d \<Rightarrow>
          Inr \<lparr>js_h = h, js_y = y, js_x = x, js_d = d,
               js_max = ToNumber d + h * Math_sqrt (Fin 2)\<rparr>)"

definition centroid_step_js ::
  "number \<times> number \<times> number \<times> Point option \<Rightarrow> Point
    \<Rightarrow> error + number \<times> number \<times> number \<times> Point option" where
  "centroid_step_js acc a =
     (let (x, y, area, b) = acc
      in case b of
           None \<Rightarrow> Inl TypeError
         | Some b \<Rightarrow>
             (let f = fst a * snd b - fst b * snd a
              in Inr (x + (fst a + fst b) * f, y + (snd a + snd b) * f, area + f * Fin 3,
                      Some a)))"

definition getCentroidCell_js :: "Polygon \<Rightarrow> error + Cell_js" where
  "getCentroidCell_js polygon =
     (case polygon of
        [] \<Rightarrow> Inl TypeError
      | points # _ \<Rightarrow>
          (let b = js_index points (ToNumber (lenght points) - Fin 1)
           in case fold_err centroid_step_js (Fin 0, Fin 0, Fin 0, b) points of
                Inl e \<Rightarrow> Inl e
              | Inr (x, y, area, b) \<Rightarrow>
                  (if num_eq area (Fin 0) then
                     (case points of
                        [] \<Rightarrow> Inl TypeError
                      | p # _ \<Rightarrow> new_Cell_js (fst p) (snd p) (Fin 0) polygon)
                   else new_Cell_js (x / area) (y / area) (Fin 0) polygon)))"

text \<open>
  The envelope loop of \<open>polylabel\<close>, \<^verbatim>\<open>for (const p of polygon[0][0])\<close>: \<open>p\<close> runs over the
  two coordinates of the first vertex, and the body reads \<open>p[0]\<close> and \<open>p[1]\<close> of that
  number. The state is \<open>(min_x, min_y, max_x, max_y)\<close>; an assignment such as
  \<open>min_x = p[0]\<close> stores the number that \<open>p[0]\<close> converts to.
\<close>

definition envelope_step_js ::
  "number \<times> number \<times> number \<times> number \<Rightarrow> number \<Rightarrow> number \<times> number \<times> number \<times> number" where
  "envelope_step_js acc p =
     (let (min_x, min_y, max_x, max_y) = acc;
          min_x = (if js_lt (number_index p 0) (Num min_x) then ToNumber (number_index p 0)
                   else min_x);
          min_y = (if js_lt (number_index p 1) (Num min_y) then ToNumber (number_index p 1)
                   else min_y);
          max_x = (if js_lt (Num max_x) (number_index p 0) then ToNumber (number_index p 0)
                   else max_x);
          max_y = (if js_lt (Num max_y) (number_index p 1) then ToNumber (number_index p 1)
                   else max_y)
      in (min_x, min_y, max_x, max_y))"

definition envelope_js :: "Point \<Rightarrow> number \<times> number \<times> number \<times> number" where
  "envelope_js first_item =
     foldl envelope_step_js (fst first_item, snd first_item, fst first_item, snd first_item)
       [fst first_item, snd first_item]"

text \<open>
  The seeding loops of \<open>polylabel.js\<close>; the inner loop advances \<open>x\<close> as well as \<open>y\<close>. The
  queue is a plain array: \<open>push\<close> appends and \<open>shift\<close> removes the first element.
\<close>

partial_function (option) grid_y_js ::
  "Polygon \<Rightarrow> number \<Rightarrow> number \<Rightarrow> number \<Rightarrow> number \<Rightarrow> number \<Rightarrow> Cell_js list
    \<Rightarrow> (error + number \<times> Cell_js list) option" where
  "grid_y_js polygon h cell_size max_y x y cellQueue =
     (if y < max_y then
        (case new_Cell_js (x + h) (y + h) h polygon of
           Inl e \<Rightarrow> Some (Inl e)
         | Inr c \<Rightarrow>
             grid_y_js polygon h cell_size max_y (x + cell_size) (y + cell_size)
               (cellQueue @ [c]))
      else Some (Inr (x, cellQueue)))"

partial_function (option) grid_x_js ::
  "Polygon \<Rightarrow> number \<Rightarrow> number \<Rightarrow> number \<Rightarrow> number \<Rightarrow> number \<Rightarrow> number \<Rightarrow> Cell_js list
    \<Rightarrow> (error + Cell_js list) option" where
  "grid_x_js polygon h cell_size min_y max_x max_y x cellQueue =
     (if x < max_x then
        (case grid_y_js polygon h cell_size max_y x min_y cellQueue of
           None \<Rightarrow> None
         | Some (Inl e) \<Rightarrow> Some (Inl e)
         | Some (Inr (x, cellQueue)) \<Rightarrow>
             grid_x_js polygon h cell_size min_y max_x max_y x cellQueue)
      else Some (Inr cellQueue))"

partial_function (option) search_js ::
  "Polygon \<Rightarrow> number \<Rightarrow> Cell_js list \<Rightarrow> Cell_js \<Rightarrow> (error + Cell_js) option" where
  "search_js polygon precision cellQueue best_cell =
     (case cellQueue of
        [] \<Rightarrow> Some (Inr best_cell)
      | cell # cellQueue \<Rightarrow>
          (let best_cell = (if js_lt (js_d best_cell) (js_d cell) then cell else best_cell)
           in if js_max cell - ToNumber (js_d best_cell) \<le> precision then
                search_js polygon precision cellQueue best_cell
              else
                (let h = js_h cell / Fin 2
                 in case new_Cell_js (js_x cell - h) (js_y cell - h) h polygon of
                      Inl e \<Rightarrow> Some (Inl e)
                    | Inr c1 \<Rightarrow>
                 (case new_Cell_js (js_x cell + h) (js_y cell - h) h polygon of
                      Inl e \<Rightarrow> Some (Inl e)
                    | Inr c2 \<Rightarrow>
                 (case new_Cell_js (js_x cell - h) (js_y cell + h) h polygon of
                      Inl e \<Rightarrow> Some (Inl e)
                    | Inr c3 \<Rightarrow>
                 (case new_Cell_js (js_x cell + h) (js_y cell + h) h polygon of
                      Inl e \<Rightarrow> Some (Inl e)
                    | Inr c4 \<Rightarrow>
                        search_js polygon precision (cellQueue @ [c1, c2, c3, c4])
                          best_cell))))))"

text \<open>
  \<open>polylabel(polygon, precision, debug, with_distance)\<close> of \<open>polylabel.js\<close>, without the
  printing. The result \<open>[[x, y], v]\<close> is \<open>((x, y), Some v)\<close> and \<open>[[x, y]]\<close> is
  \<open>((x, y), None)\<close>. Reading \<open>polygon[0][0]\<close> of an empty polygon, or \<open>first_item[0]\<close> of
  an empty first ring, is a \<open>TypeError\<close>.
\<close>

definition polylabel_js ::
  "Polygon \<Rightarrow> number \<Rightarrow> bool \<Rightarrow> (error + Point \<times> jsval option) option" where
  "polylabel_js polygon precision with_distance =
     (case polygon of
        [] \<Rightarrow> Some (Inl TypeError)
      | [] # _ \<Rightarrow> Some (Inl TypeError)
      | (first_item # _) # _ \<Rightarrow>
          (let (min_x, min_y, max_x, max_y) = envelope_js first_item;
               width = max_x - min_x;
               height = max_y - min_y;
               cell_size = Math_min width height;
               h = cell_size / Fin 2
           in if num_eq cell_size (Fin 0) then
                (if with_distance then Some (Inr ((min_x, min_y), Some (Bool False)))
                 else Some (Inr ((min_x, min_y), None)))
              else
                (case grid_x_js polygon h cell_size min_y max_x max_y min_x [] of
                   None \<Rightarrow> None
                 | Some (Inl e) \<Rightarrow> Some (Inl e)
                 | Some (Inr cellQueue) \<Rightarrow>
                     (case getCentroidCell_js polygon of
                        Inl e \<Rightarrow> Some (Inl e)
                      | Inr best_cell \<Rightarrow>
                          (case new_Cell_js (min_x + width / Fin 2) (min_y + height / Fin 2)
                                  (Fin 0) polygon of
                             Inl e \<Rightarrow> Some (Inl e)
                           | Inr bbox_cell \<Rightarrow>
                               (let best_cell =
                                      (if js_lt (js_d best_cell) (js_d bbox_cell) then bbox_cell
                                       else best_cell)
                                in map_option
                                     (map_sum id
                                        (\<lambda>best_cell.
                                           if with_distance
                                           then ((js_x best_cell, js_y best_cell),
                                                 Some (js_d best_cell))
                                           else ((js_x best_cell, js_y best_cell), None)))
                                     (search_js polygon precision cellQueue best_cell)))))))"

section \<open>Predicates and measures used in the theorems\<close>

text \<open>
  A number is finite when it is neither an infinity nor \<open>NaN\<close>; a polygon is finite when
  every coordinate of every vertex is. A polygon is well formed when it satisfies the
  invariant of the data model: it has a ring, every ring has at least three vertices, and
  every coordinate is finite.
\<close>

fun finite_number :: "number \<Rightarrow> bool" where
  "finite_number (Fin _) = True"
| "finite_number _ = False"

definition fin_point :: "real \<times> real \<Rightarrow> Point" where
  "fin_point p = (Fin (fst p), Fin (snd p))"

definition finite_point :: "Point \<Rightarrow> bool" where
  "finite_point p = (finite_number (fst p) \<and> finite_number (snd p))"

definition finite_polygon :: "Polygon \<Rightarrow> bool" where
  "finite_polygon polygon = list_all (list_all finite_point) polygon"

definition well_formed :: "Polygon \<Rightarrow> bool" where
  "well_formed polygon =
     (polygon \<noteq> [] \<and> list_all (\<lambda>ring. 3 \<le> length ring) polygon \<and> finite_polygon polygon)"

text \<open>
  A cell as the constructor builds it from a finite centre and half-size over a polygon
  with finite distances: all fields finite, and \<open>max = d + h * sqrt 2\<close>.
\<close>

definition good_cell :: "Cell \<Rightarrow> bool" where
  "good_cell c =
     (finite_point (cell_c c) \<and> finite_number (cell_h c) \<and> finite_number (cell_d c)
      \<and> cell_max c = cell_d c + cell_h c * Math_sqrt (Fin 2))"

text \<open>The two shapes of the accumulator \<open>minDistSq\<close>.\<close>

definition dist_acc :: "number \<Rightarrow> bool" where
  "dist_acc m = (m = PInf \<or> (\<exists>r\<ge>0. m = Fin r))"

definition dist_fin :: "number \<Rightarrow> bool" where
  "dist_fin m = (\<exists>r\<ge>0. m = Fin r)"

text \<open>
  The measure of the search loop. The rank of a cell is the number of times its half-size
  can be halved before \<open>h * sqrt 2\<close> drops to the precision; a cell of rank \<open>n\<close> can
  produce at most \<open>weight n\<close> pops, itself included.
\<close>

definition cell_rank :: "number \<Rightarrow> number \<Rightarrow> nat" where
  "cell_rank precision h =
     (case (precision, h) of
        (Fin p, Fin r) \<Rightarrow> nat \<lceil>log 2 (max 1 (r * sqrt 2 / p))\<rceil>
      | _ \<Rightarrow> 0)"

fun weight :: "nat \<Rightarrow> nat" where
  "weight 0 = 1"
| "weight (Suc n) = 1 + 4 * weight n"

definition queue_weight :: "number \<Rightarrow> Cell list \<Rightarrow> nat" where
  "queue_weight precision q = sum_list (map (\<lambda>c. weight (cell_rank precision (cell_h c))) q)"

section \<open>Inputs used in the theorems\<close>

text \<open>The axis-aligned square with corners \<open>(0,0)\<close> and \<open>(10,10)\<close>, as a polygon of one ring.\<close>

definition square :: Polygon where
  "square = [[(Fin 0, Fin 0), (Fin 10, Fin 0), (Fin 10, Fin 10), (Fin 0, Fin 10)]]"

text \<open>A cell of half-size 5 at the centre of the square, as the constructor builds it.\<close>

definition probe :: Cell where
  "probe = \<lparr>cell_c = (Fin 5, Fin 5), cell_h = Fin 5, cell_d = Fin 5,
             cell_max = Fin 5 + Fin 5 * Math_sqrt (Fin 2)\<rparr>"



text \<open>
  A ring of three copies of the point \<open>(-1, -1)\<close>, and the cells that \<open>pl.ts\<close> builds on
  it: the one grid cell, the centroid cell and the cell at the centre of the envelope.
\<close>

definition neg_ring :: Ring where
  "neg_ring = [(Fin (- 1), Fin (- 1)), (Fin (- 1), Fin (- 1)), (Fin (- 1), Fin (- 1))]"

definition neg_seed :: Cell where
  "neg_seed = \<lparr>cell_c = (Fin (- (1 / 2)), Fin (- (1 / 2))), cell_h = Fin (1 / 2),
                cell_d = Fin (- sqrt (1 / 2)), cell_max = Fin (- sqrt (1 / 2) + 1 / 2 * sqrt 2)\<rparr>"

definition neg_centroid :: Cell where
  "neg_centroid = \<lparr>cell_c = (Fin 0, Fin 0), cell_h = Fin 0, cell_d = Fin (- sqrt 2),
                    cell_max = Fin (- sqrt 2)\<rparr>"

definition neg_bbox :: Cell where
  "neg_bbox = \<lparr>cell_c = (Fin (- (1 / 2)), Fin (- (1 / 2))), cell_h = Fin 0,
                cell_d = Fin (- sqrt (1 / 2)), cell_max = Fin (- sqrt (1 / 2))\<rparr>"

text \<open>A triangle with negative coordinates, and one whose doubled signed area is \<open>1/3\<close>.\<close>

definition neg_triangle :: Ring where
  "neg_triangle = [(Fin (- 3), Fin (- 3)), (Fin (- 1), Fin (- 3)), (Fin (- 1), Fin (- 1))]"

definition thin_triangle :: Ring where
  "thin_triangle = [(Fin 0, Fin 0), (Fin 1, Fin 0), (Fin 0, Fin (1 / 3))]"

text \<open>
  The point-to-segment distance in the words of the spec, on real coordinates: the
  parameter \<open>t\<close> of the projection of \<open>P\<close> on the line through \<open>A\<close> and \<open>B\<close>, and the
  closest point after clamping \<open>t\<close> to \<open>[0, 1]\<close>.
\<close>

definition dist_sq :: "real \<times> real \<Rightarrow> real \<times> real \<Rightarrow> real" where
  "dist_sq p q = (fst p - fst q) * (fst p - fst q) + (snd p - snd q) * (snd p - snd q)"

definition segment_point :: "real \<times> real \<Rightarrow> real \<times> real \<Rightarrow> real \<Rightarrow> real \<times> real" where
  "segment_point a b t = (fst a + t * (fst b - fst a), snd a + t * (snd b - snd a))"

definition projection_t :: "real \<times> real \<Rightarrow> real \<times> real \<Rightarrow> real \<times> real \<Rightarrow> real" where
  "projection_t p a b =
     ((fst p - fst a) * (fst b - fst a) + (snd p - snd a) * (snd b - snd a))
       / dist_sq b a"

definition closest_on_segment :: "real \<times> real \<Rightarrow> real \<times> real \<Rightarrow> real \<times> real \<Rightarrow> real \<times> real" where
  "closest_on_segment p a b =
     (if dist_sq b a = 0 then a
      else if 1 < projection_t p a b then b
      else if 0 < projection_t p a b then segment_point a b (projection_t p a b)
      else a)"

text \<open>
  The edges of all rings of a polygon, and the test of the spec for an edge to toggle the
  parity of a point: exactly one endpoint lies above the point, and the edge meets the
  horizontal through the point to the right of it.
\<close>

definition polygon_edges :: "'a list list \<Rightarrow> ('a \<times> 'a) list" where
  "polygon_edges polygon = concat (map ring_edges polygon)"

definition toggles :: "Point \<Rightarrow> Point \<times> Point \<Rightarrow> bool" where
  "toggles point e =
     ((snd point < snd (fst e)) \<noteq> (snd point < snd (snd e))
      \<and> fst point < (fst (snd e) - fst (fst e)) * (snd point - snd (fst e))
                        / (snd (snd e) - snd (fst e)) + fst (fst e))"

section \<open>Arithmetic and order on numbers\<close>

lemma Fin_minus [simp]: "Fin a - Fin b = Fin (a - b)"
  by (simp add: minus_number_def)

lemma Fin_le [simp]: "(Fin a \<le> Fin b) = (a \<le> b)"
  by (auto simp: less_eq_number_def)

lemma num_eq_Fin [simp]: "num_eq (Fin a) (Fin b) = (a = b)"
  by (simp add: num_eq_def)

lemma Math_min_Fin [simp]: "Math_min (Fin a) (Fin b) = Fin (min a b)"
  by (auto simp: Math_min_def)

lemma Math_min_PInf [simp]: "Math_min PInf x = x"
  by (cases x) (simp_all add: Math_min_def)

lemma not_less_NaN [simp]: "\<not> x < NaN" "\<not> NaN < x"
  by (cases x; simp)+



lemma less_number_irrefl [simp]: "\<not> (a::number) < a"
  by (cases a) simp_all

section \<open>Finite inputs give finite cells\<close>

lemma finite_number_iff: "finite_number a = (\<exists>r. a = Fin r)"
  by (cases a) simp_all

lemma finite_point_iff: "finite_point p = (\<exists>x y. p = (Fin x, Fin y))"
  by (cases p) (auto simp: finite_point_def finite_number_iff)

lemma getSegDistSq_finite:
  "\<exists>r\<ge>0. getSegDistSq (Fin px, Fin py) (Fin ax, Fin ay) (Fin bx, Fin by) = Fin r"
proof -
  have nz: "bx - ax \<noteq> 0 \<or> by - ay \<noteq> 0 \<Longrightarrow> (bx - ax) * (bx - ax) + (by - ay) * (by - ay) \<noteq> 0"
    by (metis add_nonneg_eq_0_iff mult_eq_0_iff zero_le_square)
  show ?thesis
    using nz by (auto simp: getSegDistSq_def Let_def)
qed

lemma edge_step_finite:
  assumes "finite_point p" "finite_point a" "finite_point b" "dist_acc m"
  shows "dist_fin (snd (edge_step p (i, m) (a, b)))"
proof -
  obtain px py ax ay bx "by" where [simp]: "p = (Fin px, Fin py)" "a = (Fin ax, Fin ay)" "b = (Fin bx, Fin by)"
    using assms by (auto simp: finite_point_iff)
  obtain r where r: "0 \<le> r" "getSegDistSq (Fin px, Fin py) (Fin ax, Fin ay) (Fin bx, Fin by) = Fin r"
    using getSegDistSq_finite by blast
  show ?thesis
    using assms(4) r by (auto simp: edge_step_def dist_fin_def dist_acc_def Let_def)
qed

lemma dist_fin_acc: "dist_fin m \<Longrightarrow> dist_acc m"
  by (auto simp: dist_fin_def dist_acc_def)

lemma edge_step_finite':
  assumes "finite_point p" "finite_point (fst e)" "finite_point (snd e)" "dist_acc (snd acc)"
  shows "dist_fin (snd (edge_step p acc e))"
  using edge_step_finite [OF assms(1-3), of "snd acc" "fst acc"] assms(4) by simp

lemma edges_fold_fin:
  assumes "finite_point p" "\<forall>e\<in>set es. finite_point (fst e) \<and> finite_point (snd e)"
    and "dist_fin (snd acc)"
  shows "dist_fin (snd (foldl (edge_step p) acc es))"
  using assms(2,3)
proof (induction es arbitrary: acc)
  case Nil
  then show ?case by simp
next
  case (Cons e es)
  have "dist_fin (snd (edge_step p acc e))"
    using edge_step_finite' [OF assms(1), of e acc] Cons.prems dist_fin_acc by simp
  then show ?case
    using Cons.IH [of "edge_step p acc e"] Cons.prems by simp
qed

lemma edges_fold_nonempty:
  assumes "finite_point p" "\<forall>e\<in>set es. finite_point (fst e) \<and> finite_point (snd e)"
    and "dist_acc (snd acc)" "es \<noteq> []"
  shows "dist_fin (snd (foldl (edge_step p) acc es))"
proof (cases es)
  case Nil
  then show ?thesis using assms(4) by simp
next
  case (Cons e es')
  have "dist_fin (snd (edge_step p acc e))"
    using edge_step_finite' [OF assms(1), of e acc] assms(2,3) Cons by simp
  then show ?thesis
    using edges_fold_fin [OF assms(1), of es' "edge_step p acc e"] assms(2) Cons by simp
qed

lemma edges_fold_acc:
  assumes "finite_point p" "\<forall>e\<in>set es. finite_point (fst e) \<and> finite_point (snd e)"
    and "dist_acc (snd acc)"
  shows "dist_acc (snd (foldl (edge_step p) acc es))"
  using edges_fold_nonempty [OF assms] assms(3) dist_fin_acc by (cases "es = []") auto

lemma ring_edges_subset:
  assumes "e \<in> set (ring_edges ring)"
  shows "fst e \<in> set ring \<and> snd e \<in> set ring"
proof (cases ring)
  case Nil
  then show ?thesis using assms by (simp add: ring_edges_def)
next
  case (Cons a as)
  then have "(fst e, snd e) \<in> set (zip ring (last ring # butlast ring))"
    using assms by (simp add: ring_edges_def)
  then have "fst e \<in> set ring" "snd e \<in> set (last ring # butlast ring)"
    by (rule set_zip_leftD, rule set_zip_rightD)
  moreover have "last ring \<in> set ring"
    using Cons by (intro last_in_set) simp
  moreover have "set (butlast ring) \<subseteq> set ring"
    by (auto dest: in_set_butlastD)
  ultimately show ?thesis by auto
qed

lemma ring_edges_nonempty: "ring \<noteq> [] \<Longrightarrow> ring_edges ring \<noteq> []"
  by (cases ring) (auto simp: ring_edges_def)

lemma ring_edges_finite:
  assumes "list_all finite_point ring"
  shows "\<forall>e\<in>set (ring_edges ring). finite_point (fst e) \<and> finite_point (snd e)"
proof
  fix e
  assume "e \<in> set (ring_edges ring)"
  then have "fst e \<in> set ring \<and> snd e \<in> set ring"
    by (rule ring_edges_subset)
  then show "finite_point (fst e) \<and> finite_point (snd e)"
    using assms by (simp add: list_all_iff)
qed

lemma rings_fold_fin:
  assumes "finite_point p" "finite_polygon rings" "dist_fin (snd acc)"
  shows "dist_fin (snd (foldl (\<lambda>acc ring. foldl (edge_step p) acc (ring_edges ring)) acc rings))"
  using assms(2,3)
proof (induction rings arbitrary: acc)
  case Nil
  then show ?case by simp
next
  case (Cons ring rings)
  have "dist_fin (snd (foldl (edge_step p) acc (ring_edges ring)))"
    using edges_fold_fin [OF assms(1) ring_edges_finite] Cons.prems
    by (simp add: finite_polygon_def)
  then show ?case
    using Cons.IH Cons.prems by (simp add: finite_polygon_def)
qed

lemma pointToPolygonDist_finite:
  assumes "finite_point p" "finite_polygon (ring # rings)" "ring \<noteq> []"
  shows "finite_number (pointToPolygonDist p (ring # rings))"
proof -
  let ?s1 = "foldl (edge_step p) (False, PInf) (ring_edges ring)"
  have "dist_fin (snd ?s1)"
    using edges_fold_nonempty [OF assms(1) ring_edges_finite, of ring "(False, PInf)"] assms(2,3)
    by (simp add: finite_polygon_def dist_acc_def ring_edges_nonempty)
  then have "dist_fin (snd (foldl (\<lambda>acc ring. foldl (edge_step p) acc (ring_edges ring)) ?s1 rings))"
    using rings_fold_fin [OF assms(1), of rings ?s1] assms(2) by (simp add: finite_polygon_def)
  then show ?thesis
    by (auto simp: pointToPolygonDist_def dist_fin_def split: prod.splits)
qed

lemma new_Cell_good:
  assumes "finite_point c" "finite_number h" "finite_polygon (ring # rings)" "ring \<noteq> []"
  shows "\<exists>cell. new_Cell c h (ring # rings) = Inr cell \<and> good_cell cell \<and> cell_h cell = h
           \<and> cell_c cell = c"
  using assms pointToPolygonDist_finite [OF assms(1,3,4)]
  by (auto simp: new_Cell_def good_cell_def isNaN_def finite_point_def Let_def)

lemma cell_rank_half:
  assumes "0 < p" "p < r * sqrt 2"
  shows "cell_rank (Fin p) (Fin r) = Suc (cell_rank (Fin p) (Fin (r / 2)))"
proof -
  define q where "q = r * sqrt 2 / p"
  have q1: "1 < q" using assms by (simp add: q_def)
  have half: "r / 2 * sqrt 2 / p = q / 2" by (simp add: q_def)
  have lq: "0 < log 2 q" using q1 by simp
  have c1: "cell_rank (Fin p) (Fin r) = nat \<lceil>log 2 (max 1 q)\<rceil>"
    unfolding cell_rank_def q_def by simp
  have c2: "cell_rank (Fin p) (Fin (r / 2)) = nat \<lceil>log 2 (max 1 (q / 2))\<rceil>"
    unfolding cell_rank_def half [symmetric] by simp
  show ?thesis
  proof (cases "q / 2 \<le> 1")
    case True
    then have "log 2 q \<le> 1" using q1 by (simp add: log_le_iff)
    then have "\<lceil>log 2 q\<rceil> = 1" using lq by linarith
    moreover have "max 1 (q / 2) = 1" using True by simp
    moreover have "max 1 q = q" using q1 by simp
    ultimately show ?thesis
      unfolding c1 c2 by simp
  next
    case False
    then have q2: "1 < q / 2" by simp
    have "log 2 (q / 2) = log 2 q - 1" using q1 by (simp add: log_divide)
    moreover have "0 < log 2 (q / 2)" using q2 by simp
    ultimately have "nat \<lceil>log 2 q\<rceil> = Suc (nat \<lceil>log 2 (q / 2)\<rceil>)" by linarith
    moreover have "max 1 (q / 2) = q / 2" "max 1 q = q" using q1 q2 by simp_all
    ultimately show ?thesis
      unfolding c1 c2 by simp
  qed
qed

lemma pq_top_in_set: "q \<noteq> [] \<Longrightarrow> pq_top compare q \<in> set q"
proof -
  have "foldl (\<lambda>best b. if compare best b then b else best) a xs \<in> set (a # xs)" for a xs
    by (induction xs arbitrary: a) (auto split: if_splits)
  from this [of "hd q" "tl q"] show "q \<noteq> [] \<Longrightarrow> pq_top compare q \<in> set q"
    by (simp add: pq_top_def)
qed

lemma queue_weight_remove1:
  "c \<in> set q \<Longrightarrow>
     queue_weight precision q =
       weight (cell_rank precision (cell_h c)) + queue_weight precision (remove1 c q)"
  unfolding queue_weight_def by (rule sum_list_map_remove1)

lemma queue_weight_push [simp]:
  "queue_weight precision (pq_push q c) =
     queue_weight precision q + weight (cell_rank precision (cell_h c))"
  by (simp add: queue_weight_def pq_push_def)

lemma weight_pos: "0 < weight n"
  by (cases n) simp_all

lemma good_cellD:
  assumes "good_cell c"
  obtains x y h d where "cell_c c = (Fin x, Fin y)" "cell_h c = Fin h" "cell_d c = Fin d"
    "cell_max c = Fin (d + h * sqrt 2)"
  using assms by (auto simp: good_cell_def finite_point_iff finite_number_iff)

lemma not_pruned:
  assumes "good_cell cell" "good_cell best" "Fin 0 < precision"
    and "\<not> cell_max cell - cell_d (if cell_d best < cell_d cell then cell else best) \<le> precision"
  obtains p h where "precision = Fin p" "0 < p" "cell_h cell = Fin h" "p < h * sqrt 2"
proof -
  obtain x y h d where c: "cell_h cell = Fin h" "cell_d cell = Fin d"
      "cell_max cell = Fin (d + h * sqrt 2)"
    using assms(1) by (rule good_cellD)
  obtain x' y' h' d' where b: "cell_d best = Fin d'"
    using assms(2) by (rule good_cellD)
  show ?thesis
  proof (cases precision)
    case (Fin p)
    then have "0 < p" using assms(3) by simp
    moreover have "p < h * sqrt 2"
      using assms(4) c b Fin by (auto split: if_splits)
    ultimately show ?thesis using that Fin c by blast
  next
    case PInf
    then show ?thesis using assms(4) c b by (auto simp: less_eq_number_def split: if_splits)
  next
    case NInf
    then show ?thesis using assms(3) by simp
  next
    case NaN
    then show ?thesis using assms(3) by simp
  qed
qed

lemma search_terminates_aux:
  assumes poly: "finite_polygon (ring # rings)" "ring \<noteq> []" and prec: "Fin 0 < precision"
  shows "list_all good_cell q \<Longrightarrow> good_cell best \<Longrightarrow>
           \<exists>b. search (ring # rings) precision q best = Some (Inr b) \<and> good_cell b"
proof (induction "queue_weight precision q" arbitrary: q best rule: less_induct)
  case less
  let ?polygon = "ring # rings"
  show ?case
  proof (cases "q = []")
    case True
    then show ?thesis using less.prems by (subst search.simps) simp
  next
    case nonempty: False
    let ?cell = "pq_top compareMax q"
    let ?rest = "remove1 ?cell q"
    let ?best = "if cell_d best < cell_d ?cell then ?cell else best"
    have cell_in: "?cell \<in> set q" using nonempty by (rule pq_top_in_set)
    have good_cell: "good_cell ?cell" using cell_in less.prems(1) by (simp add: list_all_iff)
    have good_best: "good_cell ?best" using good_cell less.prems(2) by simp
    have good_rest: "list_all good_cell ?rest"
      using less.prems(1) by (auto simp: list_all_iff dest: notin_set_remove1)
    have w: "queue_weight precision q =
               weight (cell_rank precision (cell_h ?cell)) + queue_weight precision ?rest"
      using cell_in by (rule queue_weight_remove1)
    show ?thesis
    proof (cases "cell_max ?cell - cell_d ?best \<le> precision")
      case True
      have "queue_weight precision ?rest < queue_weight precision q"
        using w weight_pos [of "cell_rank precision (cell_h ?cell)"] by simp
      from less.hyps [OF this good_rest good_best]
      obtain b where "search ?polygon precision ?rest ?best = Some (Inr b)" "good_cell b"
        by blast
      then show ?thesis
        using nonempty True by (subst search.simps) (simp add: pq_pop_def Let_def)
    next
      case False
      obtain p h where ph: "precision = Fin p" "0 < p" "cell_h ?cell = Fin h" "p < h * sqrt 2"
        using not_pruned [OF good_cell less.prems(2) prec False] by blast
      obtain x y where xy: "cell_c ?cell = (Fin x, Fin y)"
        using good_cell by (auto elim: good_cellD)
      let ?h = "Fin (h / 2)"
      have hh: "cell_h ?cell / Fin 2 = ?h" using ph by simp
      have fh: "finite_number ?h" by simp
      obtain c1 where c1: "new_Cell (Fin x + ?h, Fin y - ?h) ?h ?polygon = Inr c1"
          "good_cell c1" "cell_h c1 = ?h"
        using new_Cell_good [OF _ fh poly, of "(Fin x + ?h, Fin y - ?h)"]
        by (auto simp: finite_point_def)
      obtain c2 where c2: "new_Cell (Fin x - ?h, Fin y - ?h) ?h ?polygon = Inr c2"
          "good_cell c2" "cell_h c2 = ?h"
        using new_Cell_good [OF _ fh poly, of "(Fin x - ?h, Fin y - ?h)"]
        by (auto simp: finite_point_def)
      obtain c3 where c3: "new_Cell (Fin x - ?h, Fin y + ?h) ?h ?polygon = Inr c3"
          "good_cell c3" "cell_h c3 = ?h"
        using new_Cell_good [OF _ fh poly, of "(Fin x - ?h, Fin y + ?h)"]
        by (auto simp: finite_point_def)
      obtain c4 where c4: "new_Cell (Fin x + ?h, Fin y + ?h) ?h ?polygon = Inr c4"
          "good_cell c4" "cell_h c4 = ?h"
        using new_Cell_good [OF _ fh poly, of "(Fin x + ?h, Fin y + ?h)"]
        by (auto simp: finite_point_def)
      let ?q' = "pq_push (pq_push (pq_push (pq_push ?rest c1) c2) c3) c4"
      have rank: "weight (cell_rank precision (cell_h ?cell)) =
                    1 + 4 * weight (cell_rank precision ?h)"
        using cell_rank_half [OF ph(2,4)] ph(1,3) by simp
      have "queue_weight precision ?q' < queue_weight precision q"
        using w rank c1(3) c2(3) c3(3) c4(3) by simp
      moreover have "list_all good_cell ?q'"
        using good_rest c1(2) c2(2) c3(2) c4(2) by (simp add: pq_push_def)
      ultimately obtain b where "search ?polygon precision ?q' ?best = Some (Inr b)" "good_cell b"
        using less.hyps [OF _ _ good_best] by blast
      then show ?thesis
        using nonempty False c1(1) c2(1) c3(1) c4(1) xy hh
        by (subst search.simps) (simp add: pq_pop_def Let_def)
    qed
  qed
qed

lemma geometry_step_Fin:
  "geometry_step ((Fin a, Fin b), (Fin c, Fin d)) (Fin x, Fin y) =
     ((Fin (min x a), Fin (min y b)), (Fin (max c x), Fin (max d y)))"
  by (simp add: geometry_step_def min_def max_def)

lemma geometry_step_PInf:
  "geometry_step ((PInf, PInf), (Fin c, Fin d)) (Fin x, Fin y) =
     ((Fin x, Fin y), (Fin (max c x), Fin (max d y)))"
  by (simp add: geometry_step_def max_def)

lemma getGeometry_finite:
  "getGeometry (map fin_point pts) =
     (if pts = [] then ((PInf, PInf), (Fin 0, Fin 0))
      else ((Fin (Min (set (map fst pts))), Fin (Min (set (map snd pts)))),
            (Fin (Max (insert 0 (set (map fst pts)))), Fin (Max (insert 0 (set (map snd pts)))))))"
proof (induction pts rule: rev_induct)
  case Nil
  then show ?case by (simp add: getGeometry_def)
next
  case (snoc p pts)
  show ?case
  proof (cases "pts = []")
    case True
    then show ?thesis
      by (simp add: getGeometry_def fin_point_def geometry_step_PInf max.commute)
  next
    case False
    then have ne: "fst ` set pts \<noteq> {}" "snd ` set pts \<noteq> {}" by simp_all
    have step: "getGeometry (map fin_point (pts @ [p])) =
            geometry_step (getGeometry (map fin_point pts)) (fin_point p)"
      by (simp add: getGeometry_def)
    have fp: "fin_point p = (Fin (fst p), Fin (snd p))"
      by (simp add: fin_point_def)
    show ?thesis
      unfolding step snoc.IH fp using False ne
      by (simp add: geometry_step_Fin Min_insert Max_insert max.assoc max.commute
            max.left_commute)
  qed
qed

lemma finite_ring_map: "list_all finite_point ring \<Longrightarrow> \<exists>pts. ring = map fin_point pts"
proof (induction ring)
  case Nil
  then show ?case by simp
next
  case (Cons p ring)
  from Cons.prems have "finite_point p" "list_all finite_point ring" by simp_all
  obtain pts where "ring = map fin_point pts"
    using Cons.IH \<open>list_all finite_point ring\<close> by blast
  moreover obtain x y where "p = (Fin x, Fin y)"
    using \<open>finite_point p\<close> by (auto simp: finite_point_iff)
  then have "p = fin_point (x, y)"
    by (simp add: fin_point_def)
  ultimately have "p # ring = map fin_point ((x, y) # pts)" by simp
  then show ?case by (rule exI)
qed

lemma getGeometry_bounds:
  assumes "list_all finite_point ring" "ring \<noteq> []"
  obtains a b c d where "getGeometry ring = ((Fin a, Fin b), (Fin c, Fin d))" "a \<le> c" "b \<le> d"
proof -
  obtain pts where pts: "ring = map fin_point pts" "pts \<noteq> []"
    using finite_ring_map [OF assms(1)] assms(2) by auto
  have min_max: "Min A \<le> Max (insert 0 A)" if fin: "finite A" and ne: "A \<noteq> {}" for A :: "real set"
  proof -
    obtain a where a: "a \<in> A" using ne by blast
    have "Min A \<le> a" using fin a by (rule Min_le)
    also have "a \<le> Max (insert 0 A)" using fin a by (intro Max_ge) auto
    finally show ?thesis .
  qed
  have "Min (set (map fst pts)) \<le> Max (insert 0 (set (map fst pts)))"
    using pts(2) by (intro min_max) auto
  moreover have "Min (set (map snd pts)) \<le> Max (insert 0 (set (map snd pts)))"
    using pts(2) by (intro min_max) auto
  ultimately show ?thesis
    using that pts by (simp add: getGeometry_finite)
qed

lemma grid_y_terminates:
  assumes poly: "finite_polygon (ring # rings)" "ring \<noteq> []" and cs: "0 < cs"
  shows "list_all good_cell q \<Longrightarrow>
           \<exists>q'. grid_y (ring # rings) (Fin h) (Fin cs) (Fin my) (Fin x) (Fin y) q = Some (Inr q')
                \<and> list_all good_cell q'"
proof (induction "nat \<lceil>(my - y) / cs\<rceil>" arbitrary: y q rule: less_induct)
  case less
  show ?case
  proof (cases "y < my")
    case False
    then show ?thesis using less.prems by (subst grid_y.simps) simp
  next
    case True
    obtain c where c: "new_Cell (Fin x + Fin h, Fin y + Fin h) (Fin h) (ring # rings) = Inr c"
        "good_cell c"
      using new_Cell_good [OF _ _ poly, of "(Fin x + Fin h, Fin y + Fin h)" "Fin h"]
      by (auto simp: finite_point_def)
    have "(my - (y + cs)) / cs = (my - y) / cs - 1"
      using cs by (simp add: field_simps)
    moreover have "0 < (my - y) / cs" using True cs by simp
    ultimately have "nat \<lceil>(my - (y + cs)) / cs\<rceil> < nat \<lceil>(my - y) / cs\<rceil>"
      by linarith
    moreover have "list_all good_cell (pq_push q c)"
      using less.prems c(2) by (simp add: pq_push_def)
    ultimately obtain q' where
      "grid_y (ring # rings) (Fin h) (Fin cs) (Fin my) (Fin x) (Fin (y + cs)) (pq_push q c)
         = Some (Inr q')" "list_all good_cell q'"
      using less.hyps by blast
    then show ?thesis
      using True c(1) by (subst grid_y.simps) simp
  qed
qed

lemma grid_x_terminates:
  assumes poly: "finite_polygon (ring # rings)" "ring \<noteq> []" and cs: "0 < cs"
  shows "list_all good_cell q \<Longrightarrow>
           \<exists>q'. grid_x (ring # rings) (Fin h) (Fin cs) ((Fin a, Fin b), (Fin mx, Fin my)) (Fin x) q
                  = Some (Inr q')
                \<and> list_all good_cell q'"
proof (induction "nat \<lceil>(mx - x) / cs\<rceil>" arbitrary: x q rule: less_induct)
  case less
  show ?case
  proof (cases "x < mx")
    case False
    then show ?thesis using less.prems by (subst grid_x.simps) simp
  next
    case True
    obtain q1 where q1:
      "grid_y (ring # rings) (Fin h) (Fin cs) (Fin my) (Fin x) (Fin b) q = Some (Inr q1)"
      "list_all good_cell q1"
      using grid_y_terminates [OF poly cs less.prems] by blast
    have "(mx - (x + cs)) / cs = (mx - x) / cs - 1"
      using cs by (simp add: field_simps)
    moreover have "0 < (mx - x) / cs" using True cs by simp
    ultimately have "nat \<lceil>(mx - (x + cs)) / cs\<rceil> < nat \<lceil>(mx - x) / cs\<rceil>"
      by linarith
    then obtain q' where
      "grid_x (ring # rings) (Fin h) (Fin cs) ((Fin a, Fin b), (Fin mx, Fin my)) (Fin (x + cs)) q1
         = Some (Inr q')" "list_all good_cell q'"
      using less.hyps q1(2) by blast
    then show ?thesis
      using True q1(1) by (subst grid_x.simps) simp
  qed
qed

lemma centroid_fold_finite:
  assumes "\<forall>e\<in>set es. finite_point (fst e) \<and> finite_point (snd e)"
  shows "\<exists>cx cy area. foldl centroid_step (Fin x, Fin y, Fin a) es = (Fin cx, Fin cy, Fin area)"
  using assms
proof (induction es arbitrary: x y a)
  case Nil
  then show ?case by simp
next
  case (Cons e es)
  obtain ax ay bx "by" where e: "e = ((Fin ax, Fin ay), (Fin bx, Fin by))"
    using Cons.prems by (cases e) (auto simp: finite_point_iff)
  show ?case
    using Cons.IH Cons.prems by (simp add: e centroid_step_def)
qed

lemma getCentroidCell_good:
  assumes "finite_polygon (ring # rings)" "ring \<noteq> []" "finite_point p"
  shows "\<exists>c. getCentroidCell (ring # rings) (p # points) = Inr c \<and> good_cell c"
proof -
  obtain cx cy area where f:
    "foldl centroid_step (Fin 0, Fin 0, Fin 1) (ring_edges ring) = (Fin cx, Fin cy, Fin area)"
    using centroid_fold_finite [OF ring_edges_finite, of ring 0 0 1] assms(1)
    by (auto simp: finite_polygon_def)
  show ?thesis
  proof (cases "area = 0")
    case True
    then show ?thesis
      using new_Cell_good [OF _ _ assms(1,2), of "(fst p, snd p)" "Fin 0"] assms(3) f
      by (auto simp: getCentroidCell_def)
  next
    case False
    then show ?thesis
      using new_Cell_good [OF _ _ assms(1,2), of "(Fin (cx / area), Fin (cy / area))" "Fin 0"] f
      by (auto simp: getCentroidCell_def finite_point_def)
  qed
qed

section \<open>pl.ts: the segment distance is the distance to the closest point\<close>

lemma dist_sq_zero: "(dist_sq b a = 0) = (fst b - fst a = 0 \<and> snd b - snd a = 0)"
  unfolding dist_sq_def by (metis add_nonneg_eq_0_iff mult_eq_0_iff zero_le_square)

lemma getSegDistSq_closest:
  "getSegDistSq (fin_point p) (fin_point a) (fin_point b) =
     Fin (dist_sq p (closest_on_segment p a b))"
proof (cases "dist_sq b a = 0")
  case True
  then show ?thesis
    using dist_sq_zero [of b a]
    by (simp add: getSegDistSq_def fin_point_def closest_on_segment_def) (simp add: dist_sq_def)
next
  case False
  then have nz: "fst b - fst a \<noteq> 0 \<or> snd b - snd a \<noteq> 0"
    using dist_sq_zero [of b a] by blast
  have d: "(fst b - fst a) * (fst b - fst a) + (snd b - snd a) * (snd b - snd a) = dist_sq b a"
    by (simp add: dist_sq_def)
  have d0: "dist_sq b a \<noteq> 0" using False .
  have t: "((fst p - fst a) * (fst b - fst a) + (snd p - snd a) * (snd b - snd a)) / dist_sq b a
             = projection_t p a b"
    by (simp add: projection_t_def)
  show ?thesis
    using nz False
    apply (simp add: getSegDistSq_def fin_point_def Let_def d d0 t closest_on_segment_def)
    apply (auto simp: dist_sq_def segment_point_def mult.commute)
    done
qed

lemma dist_sq_segment_point:
  assumes "dist_sq b a \<noteq> 0"
  shows "dist_sq p (segment_point a b t) =
           dist_sq p a - dist_sq b a * (projection_t p a b)\<^sup>2
           + dist_sq b a * (t - projection_t p a b)\<^sup>2"
proof -
  define L where "L = dist_sq b a"
  define W where "W = (fst p - fst a) * (fst b - fst a) + (snd p - snd a) * (snd b - snd a)"
  have t0: "projection_t p a b * L = W"
    using assms by (simp add: projection_t_def L_def W_def)
  have "dist_sq p (segment_point a b t) = dist_sq p a - 2 * t * W + t\<^sup>2 * L"
    by (simp add: dist_sq_def segment_point_def L_def W_def power2_eq_square algebra_simps)
  also have "\<dots> = dist_sq p a - 2 * t * (projection_t p a b * L) + t\<^sup>2 * L"
    by (simp add: t0)
  also have "\<dots> = dist_sq p a - L * (projection_t p a b)\<^sup>2 + L * (t - projection_t p a b)\<^sup>2"
    by (simp add: power2_eq_square algebra_simps)
  finally show ?thesis by (simp add: L_def)
qed

lemma segment_point_ends [simp]: "segment_point a b 0 = a" "segment_point a b 1 = b"
  by (simp_all add: segment_point_def)

lemma closest_on_segment_on:
  "\<exists>t. 0 \<le> t \<and> t \<le> 1 \<and> closest_on_segment p a b = segment_point a b t"
proof -
  consider "dist_sq b a = 0" | "dist_sq b a \<noteq> 0" "1 < projection_t p a b"
    | "dist_sq b a \<noteq> 0" "\<not> 1 < projection_t p a b" "0 < projection_t p a b"
    | "dist_sq b a \<noteq> 0" "\<not> 1 < projection_t p a b" "\<not> 0 < projection_t p a b"
    by blast
  then show ?thesis
  proof cases
    case 1
    then have "closest_on_segment p a b = segment_point a b 0"
      by (simp add: closest_on_segment_def)
    then show ?thesis by (intro exI [of _ 0]) simp
  next
    case 2
    then have "closest_on_segment p a b = segment_point a b 1"
      by (simp add: closest_on_segment_def)
    then show ?thesis by (intro exI [of _ 1]) simp
  next
    case 3
    then have "closest_on_segment p a b = segment_point a b (projection_t p a b)"
      by (simp add: closest_on_segment_def)
    then show ?thesis using 3 by (intro exI [of _ "projection_t p a b"]) simp
  next
    case 4
    then have "closest_on_segment p a b = segment_point a b 0"
      by (simp add: closest_on_segment_def)
    then show ?thesis by (intro exI [of _ 0]) simp
  qed
qed

lemma closest_on_segment_least:
  assumes "0 \<le> t" "t \<le> 1"
  shows "dist_sq p (closest_on_segment p a b) \<le> dist_sq p (segment_point a b t)"
proof (cases "dist_sq b a = 0")
  case True
  then have "segment_point a b t = a"
    using dist_sq_zero [of b a] by (simp add: segment_point_def)
  then show ?thesis using True by (simp add: closest_on_segment_def)
next
  case False
  define t0 where "t0 = projection_t p a b"
  define s where "s = (if 1 < t0 then 1 else if 0 < t0 then t0 else 0)"
  have L: "0 < dist_sq b a"
    using False by (simp add: dist_sq_def less_le)
  have c: "closest_on_segment p a b = segment_point a b s"
    using False by (simp add: closest_on_segment_def s_def t0_def)
  have "\<bar>s - t0\<bar> \<le> \<bar>t - t0\<bar>"
    using assms by (auto simp: s_def)
  then have "(s - t0)\<^sup>2 \<le> (t - t0)\<^sup>2"
    by (simp add: abs_le_square_iff)
  then have "dist_sq b a * (s - t0)\<^sup>2 \<le> dist_sq b a * (t - t0)\<^sup>2"
    using L by simp
  then show ?thesis
    unfolding c dist_sq_segment_point [OF False] t0_def by simp
qed

section \<open>pl.ts: the polygon distance takes the minimum over every edge\<close>

lemma edge_step_split:
  "edge_step p (i, m) e =
     (if toggles p e then \<not> i else i, Math_min m (getSegDistSq p (fst e) (snd e)))"
  by (cases e) (auto simp: edge_step_def toggles_def Let_def split: prod.splits)

lemma edges_fold_split:
  "foldl (edge_step p) (i, m) es =
     (i \<noteq> odd (length (filter (toggles p) es)),
      foldl Math_min m (map (\<lambda>e. getSegDistSq p (fst e) (snd e)) es))"
  by (induction es arbitrary: i m) (auto simp: edge_step_split)

lemma rings_fold_concat:
  "foldl (\<lambda>acc ring. foldl f acc (g ring)) acc rings = foldl f acc (concat (map g rings))"
  by (induction rings arbitrary: acc) simp_all

lemma pointToPolygonDist_every_edge:
  "pointToPolygonDist p polygon =
     (if odd (length (filter (toggles p) (polygon_edges polygon))) then Fin 1 else Fin (- 1))
     * Math_sqrt (foldl Math_min PInf
         (map (\<lambda>e. getSegDistSq p (fst e) (snd e)) (polygon_edges polygon)))"
  by (simp add: pointToPolygonDist_def rings_fold_concat edges_fold_split
        polygon_edges_def)

lemma foldl_Math_min_Fin:
  "foldl Math_min (Fin m) (map Fin xs) = Fin (Min (insert m (set xs)))"
proof (induction xs arbitrary: m)
  case Nil
  then show ?case by simp
next
  case (Cons x xs)
  have "Min (insert (min m x) (set xs)) = Min (insert m (insert x (set xs)))"
    by (cases "xs = []") (simp_all add: min.assoc)
  then show ?case using Cons by simp
qed

lemma foldl_Math_min_PInf:
  "xs \<noteq> [] \<Longrightarrow> foldl Math_min PInf (map Fin xs) = Fin (Min (set xs))"
  by (cases xs) (simp_all add: foldl_Math_min_Fin)

lemma ring_edges_map: "ring_edges (map f ring) = map (map_prod f f) (ring_edges ring)"
proof (cases ring)
  case Nil
  then show ?thesis by (simp add: ring_edges_def)
next
  case (Cons a as)
  then have ne: "ring \<noteq> []" by simp
  have "last (map f ring) # butlast (map f ring) = map f (last ring # butlast ring)"
    using ne by (simp add: last_map map_butlast del: last.simps butlast.simps)
  then have "zip (map f ring) (last (map f ring) # butlast (map f ring)) =
               map (map_prod f f) (zip ring (last ring # butlast ring))"
    by (simp only: zip_map_map) (simp add: map_prod_def)
  then show ?thesis
    using Cons by (simp add: ring_edges_def del: last.simps butlast.simps)
qed

lemma polygon_edges_map:
  "polygon_edges (map (map f) polygon) = map (map_prod f f) (polygon_edges polygon)"
  by (simp add: polygon_edges_def map_concat comp_def ring_edges_map)

text \<open>
  On finite input with at least one edge, the distance of \<open>pl.ts\<close> is the square root of
  the least squared distance to the closest point of an edge, over the edges of all
  rings, with the sign of the parity.
\<close>

lemma pointToPolygonDist_least:
  assumes "polygon_edges polygon \<noteq> []"
  shows "pointToPolygonDist (fin_point p) (map (map fin_point) polygon) =
     Fin ((if odd (length (filter (toggles (fin_point p))
                     (polygon_edges (map (map fin_point) polygon)))) then 1 else - 1)
          * sqrt (Min ((\<lambda>e. dist_sq p (closest_on_segment p (fst e) (snd e)))
                        ` set (polygon_edges polygon))))"
proof -
  define ds where
    "ds = map (\<lambda>e. dist_sq p (closest_on_segment p (fst e) (snd e))) (polygon_edges polygon)"
  have m: "map (\<lambda>e. getSegDistSq (fin_point p) (fst e) (snd e))
          (polygon_edges (map (map fin_point) polygon)) = map Fin ds"
    by (simp add: ds_def polygon_edges_map getSegDistSq_closest comp_def)
  have ne: "ds \<noteq> []" using assms by (simp add: ds_def)
  have "\<forall>d\<in>set ds. 0 \<le> d" by (auto simp: ds_def dist_sq_def)
  then have nonneg: "\<not> Min (set ds) < 0"
    using ne by (simp add: not_less)
  have s: "set ds = (\<lambda>e. dist_sq p (closest_on_segment p (fst e) (snd e)))
                      ` set (polygon_edges polygon)"
    by (simp add: ds_def)
  have "Math_sqrt (foldl Math_min PInf (map Fin ds)) = Fin (sqrt (Min (set ds)))"
    using nonneg by (simp add: foldl_Math_min_PInf [OF ne])
  then show ?thesis
    unfolding pointToPolygonDist_every_edge m s [symmetric] by simp
qed

section \<open>Termination of the search on exact arithmetic (pl.ts)\<close>

lemma well_formedD:
  assumes "well_formed polygon"
  obtains ring rings where "polygon = ring # rings" "ring \<noteq> []" "finite_polygon (ring # rings)"
proof (cases polygon)
  case Nil
  then show ?thesis using assms by (simp add: well_formed_def)
next
  case (Cons ring rings)
  then have "3 \<le> length ring" using assms by (simp add: well_formed_def)
  then have "ring \<noteq> []" by auto
  then show ?thesis using that Cons assms by (simp add: well_formed_def)
qed

lemma points_0_finite: "finite_point points_0"
  by (simp add: points_0_def finite_point_def)

lemma polylabel_returns_aux:
  assumes poly: "finite_polygon (ring # rings)" "ring \<noteq> []"
    and prec: "Fin 0 < precision" and p: "finite_point p"
  shows "\<exists>r. polylabel (p # points) (ring # rings) precision = Some (Inr r) \<and> finite_point r"
proof -
  let ?polygon = "ring # rings"
  have fr: "list_all finite_point ring" using poly(1) by (simp add: finite_polygon_def)
  from fr poly(2) obtain a b c d
    where env: "getGeometry ring = ((Fin a, Fin b), (Fin c, Fin d))" "a \<le> c" "b \<le> d"
    by (rule getGeometry_bounds)
  define cs where "cs = min (c - a) (d - b)"
  have cs0: "0 \<le> cs" using env(2,3) by (simp add: cs_def)
  show ?thesis
  proof (cases "cs = 0")
    case True
    then show ?thesis
      using env(1) by (simp add: polylabel_def cs_def finite_point_def)
  next
    case False
    then have cs: "0 < cs" using cs0 by simp
    obtain q where q:
      "grid_x ?polygon (Fin (cs / 2)) (Fin cs) ((Fin a, Fin b), (Fin c, Fin d)) (Fin a) [] = Some (Inr q)"
      "list_all good_cell q"
      using grid_x_terminates [OF poly cs, of "[]" "cs / 2" a b c d a] by auto
    obtain c0 where c0: "getCentroidCell ?polygon (p # points) = Inr c0" "good_cell c0"
      using getCentroidCell_good [OF poly p] by blast
    obtain bb where bb:
      "new_Cell (Fin (a + (c - a) / 2), Fin (b + (d - b) / 2)) (Fin 0) ?polygon = Inr bb"
      "good_cell bb"
      using new_Cell_good [OF _ _ poly, of "(Fin (a + (c - a) / 2), Fin (b + (d - b) / 2))" "Fin 0"]
      by (auto simp: finite_point_def)
    let ?best = "if cell_d c0 < cell_d bb then bb else c0"
    have "good_cell ?best" using c0(2) bb(2) by simp
    then obtain r where r: "search ?polygon precision q ?best = Some (Inr r)" "good_cell r"
      using search_terminates_aux [OF poly prec q(2)] by blast
    have "finite_point (cell_c r)" using r(2) by (simp add: good_cell_def)
    then show ?thesis
      using env(1) False q(1) c0(1) bb(1) r(1)
      by (simp add: polylabel_def Let_def flip: cs_def)
  qed
qed

lemma polylabel_returns:
  assumes "well_formed polygon" "Fin 0 < precision"
  shows "\<exists>r. polylabel (points_0 # points) polygon precision = Some (Inr r) \<and> finite_point r"
  using assms polylabel_returns_aux [OF _ _ assms(2) points_0_finite]
  by (auto elim!: well_formedD)

text \<open>
  On exact arithmetic the entry point returns a point, neither diverging nor throwing, on
  every well-formed polygon and every positive precision (\<open>Infinity\<close> included).
\<close>

lemma polylabel_returns_point:
  assumes "well_formed polygon" "Fin 0 < precision"
  shows "\<exists>r. polylabel (points_0 # points) polygon precision = Some (Inr r)"
  using polylabel_returns [OF assms] by blast

text \<open>
  Termination on exact arithmetic. The numbers of this theory compute exactly on the
  reals: a sum or a product of finite numbers is finite and is not rounded. On these
  numbers the search loop of \<open>pl.ts\<close>, started on any queue of cells and any best cell
  that the constructor can have built, empties the queue after finitely many pops and
  returns a cell, without throwing: the slack \<open>h * sqrt 2\<close> halves with each subdivision,
  so a cell of rank \<open>n\<close> accounts for at most \<open>weight n\<close> pops. The doubles of the program
  round and overflow (\<open>x += cellSize\<close> can leave \<open>x\<close> unchanged, a square can be
  \<open>Infinity\<close>), and the lemma says nothing about them: claim C8, which is about the
  program, is not settled by it.
\<close>

lemma search_terminates_exact:
  assumes "well_formed polygon" "Fin 0 < precision"
    and "list_all good_cell cellQueue" "good_cell bestCell"
  shows "\<exists>cell. search polygon precision cellQueue bestCell = Some (Inr cell)"
proof -
  obtain ring rings where "polygon = ring # rings" "ring \<noteq> []" "finite_polygon (ring # rings)"
    using assms(1) by (rule well_formedD)
  then show ?thesis
    using search_terminates_aux [OF _ _ assms(2,3,4), of ring rings] by auto
qed

section \<open>The envelope of polylabel.js\<close>

lemma envelope_js_first: "envelope_js (x, y) = (x, y, x, y)"
  by (simp add: envelope_js_def envelope_step_js_def js_lt_def number_index_def)

text \<open>
  On a polygon whose first ring is not empty every construction of a cell of
  \<open>polylabel.js\<close> throws: a returned value is proof that none was attempted.
\<close>

lemma pointToPolygonDistance_throws:
  "pointToPolygonDistance x y ((a # ring) # rings) = Inl TypeError"
  by (simp add: pointToPolygonDistance_def lenght_def js_index_def minus_number_def
        js_edge_step_def)

lemma new_Cell_js_throws: "new_Cell_js x y h ((a # ring) # rings) = Inl TypeError"
  by (simp add: new_Cell_js_def pointToPolygonDistance_throws)

lemma getCentroidCell_js_throws: "getCentroidCell_js ((a # ring) # rings) = Inl TypeError"
  by (simp add: getCentroidCell_js_def lenght_def js_index_def minus_number_def
        centroid_step_js_def)

text \<open>The seeding loops make no iteration when the envelope is a single point.\<close>

lemma grid_x_js_skip: "grid_x_js polygon h cs y x y' x q = Some (Inr q)"
  by (subst grid_x_js.simps) simp

text \<open>
  Claim C2, as stated: for every polygon whose first ring is not empty, \<open>polylabel\<close> of
  \<open>polylabel.js\<close> returns the first vertex of the first ring, because the width and the
  height of the envelope are always 0. It does not hold when a coordinate of the first
  vertex is \<open>NaN\<close> or infinite: the width \<open>NaN - NaN\<close> or \<open>Infinity - Infinity\<close> is
  \<open>NaN\<close>, so is \<open>cell_size\<close>, the exit \<open>cell_size === 0\<close> is missed, the seeding loops
  make no iteration and \<open>getCentroidCell\<close> throws a \<open>TypeError\<close>.
\<close>

theorem polylabel_js_nonfinite_vertex:
  "polylabel_js [[(NaN, Fin 0), (Fin 1, Fin 0), (Fin 0, Fin 1)]] (Fin 1) False =
     Some (Inl TypeError)
   \<and> polylabel_js [[(PInf, Fin 0), (Fin 1, Fin 0), (Fin 0, Fin 1)]] (Fin 1) True =
       Some (Inl TypeError)"
  by (simp add: polylabel_js_def envelope_js_first Let_def grid_x_js_skip
        getCentroidCell_js_throws minus_number_def Math_min_def num_eq_def)

text \<open>
  Claim C2, amended: for every polygon whose first ring is not empty and whose first
  vertex has finite coordinates, \<open>polylabel\<close> of \<open>polylabel.js\<close> returns the first vertex
  of the first ring, paired with \<open>false\<close> when \<open>with_distance\<close> is set, whatever the rest of
  the polygon and the precision: the envelope loop runs over the two coordinates of that
  vertex, the envelope is the vertex itself, its width and height are 0 and the
  \<open>cell_size === 0\<close> exit is taken.
\<close>

theorem polylabel_js_first_vertex:
  "envelope_js (Fin x, Fin y) = (Fin x, Fin y, Fin x, Fin y)
   \<and> polylabel_js (((Fin x, Fin y) # ring) # rings) precision with_distance =
       Some (Inr ((Fin x, Fin y), if with_distance then Some (Bool False) else None))"
  by (simp add: polylabel_js_def envelope_js_first)

theorem polylabel_js_first_vertex_witness:
  "polylabel_js square (Fin 1) True = Some (Inr ((Fin 0, Fin 0), Some (Bool False)))"
  using polylabel_js_first_vertex [of 0 0 "[(Fin 10, Fin 0), (Fin 10, Fin 10), (Fin 0, Fin 10)]"
      "[]" "Fin 1" True]
  by (simp add: square_def)

text \<open>
  No input makes \<open>polylabel.js\<close> build a cell or enter one of its loops: a call throws a
  \<open>TypeError\<close> or returns the first vertex through the \<open>cell_size === 0\<close> exit.
\<close>

lemma polylabel_js_never_searches:
  "polylabel_js polygon precision with_distance = Some (Inl TypeError)
   \<or> (\<exists>v ring rings. polygon = (v # ring) # rings
         \<and> polylabel_js polygon precision with_distance =
             Some (Inr (v, if with_distance then Some (Bool False) else None)))"
proof (cases polygon)
  case Nil
  then show ?thesis by (simp add: polylabel_js_def)
next
  case (Cons ring0 rings)
  show ?thesis
  proof (cases ring0)
    case Nil
    then show ?thesis using Cons by (simp add: polylabel_js_def)
  next
    case ring0: (Cons v ring)
    obtain x y where v: "v = (x, y)" by (cases v)
    have grid: "grid_x_js polygon h cs y x y x [] = Some (Inr [])" for h cs
      by (subst grid_x_js.simps) simp
    show ?thesis
      using Cons ring0 v grid getCentroidCell_js_throws [of v ring rings]
      by (simp add: polylabel_js_def envelope_js_first Let_def)
  qed
qed

section \<open>The priority queue\<close>





section \<open>The envelope and the degenerate ring\<close>

text \<open>
  Where no coordinate is negative, \<open>pl.ts\<close> returns the repeated point of a ring of
  identical points: the envelope has size 0 and the search is skipped.
\<close>

lemma polylabel_repeated_point:
  assumes "0 \<le> x" "0 \<le> y" "0 < n"
  shows "polylabel points (replicate n (Fin x, Fin y) # rings) precision = Some (Inr (Fin x, Fin y))"
proof -
  have eq: "replicate n (Fin x, Fin y) = map fin_point (replicate n (x, y))"
    by (simp add: fin_point_def)
  have "getGeometry (replicate n (Fin x, Fin y)) = ((Fin x, Fin y), (Fin x, Fin y))"
    unfolding eq getGeometry_finite using assms by (simp add: max_def)
  then show ?thesis
    by (simp add: polylabel_def)
qed

text \<open>
  Claim C6. The claim is that the envelope computed at seeding has its minimum and
  maximum equal to those of the vertices of ring 0, also when every coordinate is
  negative. \<open>getGeometry\<close> of \<open>pl.ts\<close> starts its maximum at \<open>0\<close> (its minimum at
  \<open>Infinity\<close>): on the triangle \<open>(-3,-3), (-1,-3), (-1,-1)\<close> it gives the maximum corner
  \<open>(0, 0)\<close>, not \<open>(-1, -1)\<close>. The envelope loop of \<open>polylabel.js\<close> leaves both corners at
  the first vertex \<open>(-3, -3)\<close>.
\<close>

theorem envelope_negative:
  "getGeometry neg_triangle = ((Fin (- 3), Fin (- 3)), (Fin 0, Fin 0))
   \<and> envelope_js (hd neg_triangle) = (Fin (- 3), Fin (- 3), Fin (- 3), Fin (- 3))"
  by (simp add: neg_triangle_def getGeometry_def geometry_step_def envelope_js_first)

text \<open>The run of \<open>pl.ts\<close> on the ring of three copies of \<open>(-1, -1)\<close>, precision 1.\<close>

lemma sqrt2_le_2: "sqrt 2 \<le> 2"
  using real_sqrt_le_mono [of 2 4] by simp

lemma dist_from_neg_point:
  "pointToPolygonDist (Fin x, Fin y) [neg_ring] =
     Fin (- sqrt ((x + 1) * (x + 1) + (y + 1) * (y + 1)))"
proof -
  have "\<not> (x + 1) * (x + 1) + (y + 1) * (y + 1) < 0"
    by (simp add: not_less)
  then show ?thesis
    by (simp add: pointToPolygonDist_def neg_ring_def ring_edges_def edge_step_def
          getSegDistSq_def)
qed

lemma cell_at_neg_point:
  "new_Cell (Fin x, Fin y) (Fin h) [neg_ring] =
     Inr \<lparr>cell_c = (Fin x, Fin y), cell_h = Fin h,
          cell_d = Fin (- sqrt ((x + 1) * (x + 1) + (y + 1) * (y + 1))),
          cell_max = Fin (- sqrt ((x + 1) * (x + 1) + (y + 1) * (y + 1)) + h * sqrt 2)\<rparr>"
  by (simp add: new_Cell_def isNaN_def dist_from_neg_point)

lemma envelope_neg_point: "getGeometry neg_ring = ((Fin (- 1), Fin (- 1)), (Fin 0, Fin 0))"
  by (simp add: neg_ring_def getGeometry_def geometry_step_def)

lemma seed_neg_point:
  "new_Cell (Fin (- (1 / 2)), Fin (- (1 / 2))) (Fin (1 / 2)) [neg_ring] = Inr neg_seed"
  using cell_at_neg_point [of "- (1 / 2)" "- (1 / 2)" "1 / 2"] by (simp add: neg_seed_def)

lemma bbox_neg_point:
  "new_Cell (Fin (- (1 / 2)), Fin (- (1 / 2))) (Fin 0) [neg_ring] = Inr neg_bbox"
  using cell_at_neg_point [of "- (1 / 2)" "- (1 / 2)" 0] by (simp add: neg_bbox_def)

lemma grid_neg_point:
  "grid_x [neg_ring] (Fin (1 / 2)) (Fin 1) ((Fin (- 1), Fin (- 1)), (Fin 0, Fin 0)) (Fin (- 1)) [] =
     Some (Inr [neg_seed])"
proof -
  have y1: "grid_y [neg_ring] (Fin (1 / 2)) (Fin 1) (Fin 0) (Fin (- 1)) (Fin 0) q = Some (Inr q)" for q
    by (subst grid_y.simps) simp
  have y0: "grid_y [neg_ring] (Fin (1 / 2)) (Fin 1) (Fin 0) (Fin (- 1)) (Fin (- 1)) [] =
      Some (Inr [neg_seed])"
    by (subst grid_y.simps) (simp add: seed_neg_point y1 pq_push_def)
  have x1: "grid_x [neg_ring] (Fin (1 / 2)) (Fin 1) ((Fin (- 1), Fin (- 1)), (Fin 0, Fin 0)) (Fin 0) q = Some (Inr q)" for q
    by (subst grid_x.simps) simp
  show ?thesis
    by (subst grid_x.simps) (simp add: y0 x1)
qed

lemma centroid_neg_point: "getCentroidCell [neg_ring] points = Inr neg_centroid"
proof -
  have "foldl centroid_step (Fin 0, Fin 0, Fin 1) (ring_edges neg_ring) = (Fin 0, Fin 0, Fin 1)"
    by (simp add: neg_ring_def ring_edges_def centroid_step_def Let_def)
  then show ?thesis
    using cell_at_neg_point [of 0 0 0] by (simp add: getCentroidCell_def neg_centroid_def)
qed

lemma search_neg_point: "search [neg_ring] (Fin 1) [neg_seed] neg_bbox = Some (Inr neg_bbox)"
proof -
  have fin: "search [neg_ring] (Fin 1) [] b = Some (Inr b)" for b
    by (subst search.simps) simp
  have "pq_pop compareMax [neg_seed] = (neg_seed, [])"
    by (simp add: pq_pop_def pq_top_def)
  moreover have "\<not> cell_d neg_bbox < cell_d neg_seed"
    by (simp add: neg_bbox_def neg_seed_def)
  moreover have "cell_max neg_seed - cell_d neg_bbox \<le> Fin 1"
    using sqrt2_le_2 by (simp add: neg_bbox_def neg_seed_def)
  ultimately show ?thesis
    by (subst search.simps) (simp add: fin)
qed

lemma polylabel_neg_point:
  "polylabel points [neg_ring] (Fin 1) = Some (Inr (Fin (- (1 / 2)), Fin (- (1 / 2))))"
proof -
  have "cell_d neg_centroid < cell_d neg_bbox"
    by (simp add: neg_centroid_def neg_bbox_def)
  moreover have "cell_c neg_bbox = (Fin (- (1 / 2)), Fin (- (1 / 2)))"
    by (simp add: neg_bbox_def)
  ultimately show ?thesis
    by (simp add: polylabel_def envelope_neg_point grid_neg_point centroid_neg_point
          bbox_neg_point search_neg_point)
qed

text \<open>
  Claim C10. The claim is that a first ring of identical points makes the entry point
  return that point, whatever its coordinates, negative ones included. On three copies of
  \<open>(-1, -1)\<close> the envelope of \<open>pl.ts\<close> reaches up to \<open>(0, 0)\<close>, the cell size is 1 and not
  0, the search runs and the answer is \<open>(-1/2, -1/2)\<close>; \<open>polylabel.js\<close> returns \<open>(-1, -1)\<close>.
\<close>

theorem repeated_negative_point:
  "getGeometry neg_ring = ((Fin (- 1), Fin (- 1)), (Fin 0, Fin 0))
   \<and> polylabel points [neg_ring] (Fin 1) = Some (Inr (Fin (- (1 / 2)), Fin (- (1 / 2))))
   \<and> polylabel_js [neg_ring] (Fin 1) False = Some (Inr ((Fin (- 1), Fin (- 1)), None))"
  by (simp add: envelope_neg_point polylabel_neg_point)
     (simp add: neg_ring_def polylabel_js_def envelope_js_first Let_def)

section \<open>The centroid seed\<close>

text \<open>
  Claim C7. The claim is that the centroid accumulators start at zero and that a zero
  area falls back to the first vertex of the input polygon. In \<open>pl.ts\<close> the area
  accumulator starts at 1: on the square the centroid cell is at \<open>3000/599\<close> in both
  coordinates, not at 5; on a triangle whose sum \<open>3 * cross\<close> is \<open>-1\<close> the accumulator is 0
  although the area is not, and the cell is put at the first row of the table \<open>points\<close>,
  not at a vertex of the polygon. \<open>getCentroidCell\<close> of \<open>polylabel.js\<close> throws.
\<close>

theorem centroid_seed:
  "map_sum id cell_c (getCentroidCell square points) = Inr (Fin (3000 / 599), Fin (3000 / 599))
   \<and> map_sum id cell_c (getCentroidCell [thin_triangle] (points_0 # points)) = Inr points_0
   \<and> getCentroidCell_js square = Inl TypeError"
proof -
  have "map_sum id cell_c (getCentroidCell square points) = Inr (Fin (3000 / 599), Fin (3000 / 599))"
    by (simp add: getCentroidCell_def square_def ring_edges_def centroid_step_def new_Cell_def
          isNaN_def Let_def)
  moreover have "map_sum id cell_c (getCentroidCell [thin_triangle] (points_0 # points)) = Inr points_0"
    by (simp add: getCentroidCell_def thin_triangle_def ring_edges_def centroid_step_def
          new_Cell_def isNaN_def Let_def points_0_def)
  moreover have "getCentroidCell_js square = Inl TypeError"
    by (simp add: getCentroidCell_js_def square_def lenght_def js_index_def minus_number_def
          centroid_step_js_def)
  ultimately show ?thesis by simp
qed

section \<open>Distances on the square\<close>

lemma sqrt25: "sqrt 25 = 5"
  using real_sqrt_abs [of 5] by simp

lemma dist_square_centre: "pointToPolygonDist (Fin 5, Fin 5) square = Fin 5"
  by (simp add: pointToPolygonDist_def square_def ring_edges_def edge_step_def getSegDistSq_def
        sqrt25)

lemma dist_square_corner: "pointToPolygonDist (Fin 0, Fin 0) square = Fin 0"
  by (simp add: pointToPolygonDist_def square_def ring_edges_def edge_step_def getSegDistSq_def)

text \<open>
  Claim C1. The claim is that the point returned by the entry point is within the
  precision of the greatest distance to the boundary. On the square, with precision 1,
  \<open>polylabel.js\<close> returns the corner \<open>(0, 0)\<close>, whose distance is 0, while the centre
  \<open>(5, 5)\<close> has distance 5.
\<close>

theorem polylabel_js_square:
  "polylabel_js square (Fin 1) True = Some (Inr ((Fin 0, Fin 0), Some (Bool False)))
   \<and> pointToPolygonDist (Fin 0, Fin 0) square = Fin 0
   \<and> pointToPolygonDist (Fin 5, Fin 5) square = Fin 5"
  by (simp add: dist_square_centre dist_square_corner)
     (simp add: square_def polylabel_js_def envelope_js_first Let_def)

text \<open>
  Claim C3. The claim is that the point-to-polygon distance takes the minimum over every
  edge of every ring, whether or not the edge toggles the parity, and returns its
  signed square root. \<open>pointToPolygonDistance\<close> of \<open>polylabel.js\<close> throws on the first
  edge of the square (\<open>b\<close> is undefined); and with a defined \<open>b\<close> the loop body leaves
  \<open>minDistSq\<close> untouched on an edge that does not toggle, here the bottom edge seen from
  the centre. \<open>pointToPolygonDist\<close> of \<open>pl.ts\<close> gives 5 at the centre.
\<close>

theorem pointToPolygonDistance_square:
  "pointToPolygonDistance (Fin 5) (Fin 5) square = Inl TypeError
   \<and> js_edge_step (Fin 5) (Fin 5) (Some (Fin 0, Fin 0)) (False, PInf) (Fin 10, Fin 0) =
       Inr (False, PInf)
   \<and> pointToPolygonDist (Fin 5, Fin 5) square = Fin 5"
  by (simp add: dist_square_centre)
     (simp add: square_def pointToPolygonDistance_def lenght_def js_index_def minus_number_def
        js_edge_step_def getSegDistSql_def)

text \<open>
  Claim C5. The claim is that the point-to-segment function returns the squared distance
  to the closest point of the segment. \<open>getSegDistSql\<close> of \<open>polylabel.js\<close> treats an
  axis-aligned segment as its first endpoint (the right edge of the square seen from its
  centre: 50, not 25), and on the others measures from \<open>B\<close> or from \<open>B + t * (B - A)\<close>;
  \<open>getSegDistSq\<close> of \<open>pl.ts\<close> gives the distances of the claim.
\<close>

theorem getSegDistSql_wrong:
  "getSegDistSql (Fin 5) (Fin 5) (Fin 10, Fin 10) (Fin 10, Fin 0) = Fin 50
   \<and> getSegDistSq (Fin 5, Fin 5) (Fin 10, Fin 10) (Fin 10, Fin 0) = Fin 25
   \<and> getSegDistSql (Fin 0) (Fin 5) (Fin 0, Fin 0) (Fin 0, Fin 10) = Fin 25
   \<and> getSegDistSq (Fin 0, Fin 5) (Fin 0, Fin 0) (Fin 0, Fin 10) = Fin 0
   \<and> getSegDistSql (Fin (- 1)) (Fin (- 1)) (Fin 0, Fin 0) (Fin 1, Fin 1) = Fin 8
   \<and> getSegDistSq (Fin (- 1), Fin (- 1)) (Fin 0, Fin 0) (Fin 1, Fin 1) = Fin 2
   \<and> getSegDistSql (Fin 1) (Fin 0) (Fin 0, Fin 0) (Fin 1, Fin 1) = Fin (5 / 2)
   \<and> getSegDistSq (Fin 1, Fin 0) (Fin 0, Fin 0) (Fin 1, Fin 1) = Fin (1 / 2)"
  by (simp add: getSegDistSql_def getSegDistSq_def Let_def)

theorem getSegDistSql_wrong_witness:
  "getSegDistSql (Fin 5) (Fin 5) (Fin 10, Fin 10) (Fin 10, Fin 0)
     \<noteq> getSegDistSq (Fin 5, Fin 5) (Fin 10, Fin 10) (Fin 10, Fin 0)"
  using getSegDistSql_wrong by simp

section \<open>Checks at the boundary\<close>

text \<open>
  Claim C9, as stated: a polygon without rings, a ring of fewer than three vertices, a
  coordinate that is not finite or a precision that is not positive makes the call fail
  with an error before any search. It does not hold: \<open>polylabel\<close> of \<open>pl.ts\<close> returns a
  point for a ring of two vertices, for a precision of 0 and for a ring with a \<open>NaN\<close>
  coordinate, and \<open>polylabel\<close> of \<open>polylabel.js\<close> for a ring of two vertices with an
  infinite and a \<open>NaN\<close> coordinate and a precision of 0.
\<close>

theorem invalid_input_not_rejected:
  "polylabel [points_0] [[(Fin 1, Fin 1), (Fin 1, Fin 1)]] (Fin 1) = Some (Inr (Fin 1, Fin 1))
   \<and> polylabel [points_0] [[(Fin 1, Fin 1), (Fin 1, Fin 1), (Fin 1, Fin 1)]] (Fin 0) =
       Some (Inr (Fin 1, Fin 1))
   \<and> polylabel [points_0] [[(Fin 1, Fin 1), (Fin 1, NaN), (Fin 1, Fin 1)]] (Fin 1) =
       Some (Inr (Fin 1, Fin 1))
   \<and> polylabel_js [[(Fin 1, Fin 1), (PInf, NaN)]] (Fin 0) False =
       Some (Inr ((Fin 1, Fin 1), None))"
  by (simp add: polylabel_def getGeometry_def geometry_step_def polylabel_js_def
        envelope_js_first Let_def)

text \<open>
  An empty ring 0 in \<open>pl.ts\<close>: the envelope is \<open>min = (Infinity, Infinity)\<close>,
  \<open>max = (0, 0)\<close>, the size is \<open>-Infinity\<close>, the seeding loops make no iteration, the
  centroid cell is built at \<open>(0, 0)\<close>, and the centre \<open>Infinity + -Infinity / 2\<close> of the
  bounding-box cell is \<open>NaN\<close>, which its constructor refuses.
\<close>

lemma grid_x_empty_ring:
  "grid_x polygon h cs ((PInf, PInf), (Fin 0, Fin 0)) PInf q = Some (Inr q)"
  by (subst grid_x.simps) simp

lemma getCentroidCell_empty_ring:
  "\<exists>cell. getCentroidCell ([] # rings) points = Inr cell"
  by (simp add: getCentroidCell_def ring_edges_def new_Cell_def num_eq_def isNaN_def Let_def)

lemma polylabel_empty_ring:
  "polylabel points ([] # rings) precision = Some (Inl (Error ''not c.x not c.y ''))"
proof -
  obtain cell where "getCentroidCell ([] # rings) points = Inr cell"
    using getCentroidCell_empty_ring by blast
  then show ?thesis
    by (simp add: polylabel_def getGeometry_def Let_def minus_number_def Math_min_def num_eq_def
          grid_x_empty_ring new_Cell_def isNaN_def)
qed

text \<open>
  Claim C9, amended: a call with a polygon that has no rings fails with a \<open>TypeError\<close>,
  raised when ring 0 is read, in both files; a call with a polygon whose ring 0 has no
  vertices fails too, with the error \<open>not c.x not c.y\<close> of the \<open>Cell\<close> constructor in
  \<open>pl.ts\<close> and with a \<open>TypeError\<close> in \<open>polylabel.js\<close>; in the four cases no point is
  returned, whatever the other rings, the precision and the flag. The constructor of
  \<open>Cell\<close> in \<open>pl.ts\<close> throws, before it computes a distance, exactly when the half-size
  or a coordinate of the centre is \<open>NaN\<close> or the polygon has no rings.
\<close>

theorem boundary_checks:
  "polylabel points [] precision = Some (Inl TypeError)
   \<and> polylabel_js [] precision with_distance = Some (Inl TypeError)
   \<and> polylabel points ([] # rings) precision = Some (Inl (Error ''not c.x not c.y ''))
   \<and> polylabel_js ([] # rings) precision with_distance = Some (Inl TypeError)
   \<and> (\<exists>cell. new_Cell c h polygon = Inr cell) =
       (\<not> isNaN h \<and> \<not> isNaN (fst c) \<and> \<not> isNaN (snd c) \<and> polygon \<noteq> [])"
proof (intro conjI)
  show "polylabel points [] precision = Some (Inl TypeError)"
    by (simp add: polylabel_def)
  show "polylabel_js [] precision with_distance = Some (Inl TypeError)"
    by (simp add: polylabel_js_def)
  show "polylabel points ([] # rings) precision = Some (Inl (Error ''not c.x not c.y ''))"
    by (rule polylabel_empty_ring)
  show "polylabel_js ([] # rings) precision with_distance = Some (Inl TypeError)"
    by (simp add: polylabel_js_def)
  show "(\<exists>cell. new_Cell c h polygon = Inr cell) =
       (\<not> isNaN h \<and> \<not> isNaN (fst c) \<and> \<not> isNaN (snd c) \<and> polygon \<noteq> [])"
    by (auto simp: new_Cell_def Let_def)
qed

theorem boundary_checks_witness:
  "polylabel [points_0] [] (Fin 1) = Some (Inl TypeError)
   \<and> polylabel [points_0] [[]] (Fin 1) = Some (Inl (Error ''not c.x not c.y ''))
   \<and> polylabel_js [[]] (Fin 1) True = Some (Inl TypeError)
   \<and> new_Cell (NaN, Fin 0) (Fin 1) square = Inl (Error ''not c.x '')
   \<and> \<not> (\<exists>cell. new_Cell (NaN, Fin 0) (Fin 1) square = Inr cell)"
  using boundary_checks [of "[points_0]" "Fin 1" True "[]" "(NaN, Fin 0)" "Fin 1" square]
  by (simp add: new_Cell_def isNaN_def square_def)

end
